theory Spec2Isabelle
  imports Complex_Main "HOL-Library.Word"
begin

section \<open>Python values used by nes\_sprite\_reader.py\<close>

text \<open>
  The program is Python 2: the file content is a byte string, \<open>/\<close> on integers is floor
  division, and every failure is an exception. Exceptions are values of \<open>error\<close>; a
  function that can raise returns \<open>error + 'a\<close> with \<open>Inl\<close> for the exception.
\<close>

datatype error = IndexError | ValueError | KeyError | TypeError | ZeroDivisionError

text \<open>Sequencing: the first exception ends the computation.\<close>

definition ebind :: "error + 'a \<Rightarrow> ('a \<Rightarrow> error + 'b) \<Rightarrow> error + 'b" where
  "ebind m f = (case m of Inl e \<Rightarrow> Inl e | Inr x \<Rightarrow> f x)"

type_synonym byte = "8 word"
type_synonym rgb = "nat \<times> nat \<times> nat"

text \<open>\<open>xs[i]\<close> on a sequence: a negative index counts from the end, an index outside
  \<open>-len .. len-1\<close> raises IndexError.\<close>

definition py_getitem :: "'a list \<Rightarrow> int \<Rightarrow> error + 'a" where
  "py_getitem xs i =
     (if 0 \<le> i \<and> i < int (length xs) then Inr (xs ! nat i)
      else if i < 0 \<and> - int (length xs) \<le> i then Inr (xs ! nat (int (length xs) + i))
      else Inl IndexError)"

text \<open>\<open>xs[i:j]\<close>: each bound, when negative, has the length added, and is then clamped
  into \<open>0 .. len\<close>; an empty or reversed range is the empty sequence. A slice never raises.\<close>

definition clamp_index :: "nat \<Rightarrow> int \<Rightarrow> nat" where
  "clamp_index n i = (if i < 0 then nat (int n + i) else min n (nat i))"

definition py_slice :: "'a list \<Rightarrow> int \<Rightarrow> int \<Rightarrow> 'a list" where
  "py_slice xs i j =
     (let lo = clamp_index (length xs) i; hi = clamp_index (length xs) j
      in take (hi - lo) (drop lo xs))"

text \<open>\<open>enumerate(xs)\<close>.\<close>

definition py_enumerate :: "'a list \<Rightarrow> (nat \<times> 'a) list" where
  "py_enumerate xs = zip [0..<length xs] xs"

text \<open>\<open>range(start, stop, step)\<close> for a positive step.\<close>

definition py_range :: "nat \<Rightarrow> nat \<Rightarrow> nat \<Rightarrow> nat list" where
  "py_range start stop step =
     map (\<lambda>k. start + k * step) [0..<(stop - start + step - 1) div step]"

text \<open>Digits: \<open>int(s, base)\<close> on a string of digits (the program only passes it the output of
  \<open>hexlify\<close> and of a binary format), and \<open>str(n)\<close> of a natural number.\<close>

definition digit_value :: "char \<Rightarrow> nat option" where
  "digit_value c =
     (let k = (of_char c :: nat) in
      if 48 \<le> k \<and> k \<le> 57 then Some (k - 48)
      else if 97 \<le> k \<and> k \<le> 102 then Some (k - 87)
      else if 65 \<le> k \<and> k \<le> 70 then Some (k - 55)
      else None)"

fun int_digits :: "nat \<Rightarrow> nat \<Rightarrow> string \<Rightarrow> error + nat" where
  "int_digits base acc [] = Inr acc"
| "int_digits base acc (c # cs) =
     (case digit_value c of
        None \<Rightarrow> Inl ValueError
      | Some d \<Rightarrow> if d < base then int_digits base (acc * base + d) cs else Inl ValueError)"

definition py_int :: "string \<Rightarrow> nat \<Rightarrow> error + nat" where
  "py_int s base = (if s = [] then Inl ValueError else int_digits base 0 s)"

definition digit_char :: "nat \<Rightarrow> char" where
  "digit_char d = ''0123456789abcdef'' ! d"

fun digits_of :: "nat \<Rightarrow> nat \<Rightarrow> string" where
  "digits_of base n =
     (if n < base \<or> base < 2 then [digit_char n]
      else digits_of base (n div base) @ [digit_char (n mod base)])"

definition py_str :: "nat \<Rightarrow> string" where
  "py_str n = digits_of 10 n"

text \<open>\<open>'{:04b}'.format(n)\<close>: binary digits, padded with zeros on the left to width 4.\<close>

definition format_04b :: "nat \<Rightarrow> string" where
  "format_04b n =
     (let s = digits_of 2 n in replicate (4 - length s) (CHR ''0'') @ s)"

text \<open>\<open>binascii.hexlify\<close>: two lower-case hexadecimal digits per byte.\<close>

definition hexlify :: "byte list \<Rightarrow> string" where
  "hexlify bs =
     concat (map (\<lambda>b. [digit_char (unat b div 16), digit_char (unat b mod 16)]) bs)"

section \<open>Module-level functions\<close>

definition ConvertToHex :: "byte list \<Rightarrow> error + nat" where
  "ConvertToHex bytes = py_int (hexlify bytes) 16"

text \<open>\<open>CompositeSpriteValue\<close>: \<open>zip\<close> stops at the shorter nibble string.\<close>

fun CompositeSpriteValue :: "string \<Rightarrow> string \<Rightarrow> error + string" where
  "CompositeSpriteValue (n1 # nibble_1) (n2 # nibble_2) =
     ebind (py_int [n1, n2] 2) (\<lambda>v.
     ebind (CompositeSpriteValue nibble_1 nibble_2) (\<lambda>rest.
     Inr (py_str v @ rest)))"
| "CompositeSpriteValue _ _ = Inr []"

text \<open>The tuple assignment \<open>hi, low = two_chars\<close> raises ValueError unless the string has
  exactly two characters.\<close>

definition unpack_pair :: "string \<Rightarrow> error + char \<times> char" where
  "unpack_pair s = (case s of [hi, low] \<Rightarrow> Inr (hi, low) | _ \<Rightarrow> Inl ValueError)"

text \<open>One pass of the loop body of \<open>LoadSprite\<close>: the row built from the two hex digits of a
  byte of channel a and of the matching byte of channel b.\<close>

definition sprite_row :: "string \<Rightarrow> string \<Rightarrow> error + string" where
  "sprite_row ca_byte cb_byte =
     ebind (unpack_pair ca_byte) (\<lambda>(hi_a, low_a).
     ebind (unpack_pair cb_byte) (\<lambda>(hi_b, low_b).
     ebind (py_int [hi_a] 16) (\<lambda>va.
     ebind (py_int [hi_b] 16) (\<lambda>vb.
     ebind (py_int [low_a] 16) (\<lambda>wa.
     ebind (py_int [low_b] 16) (\<lambda>wb.
     ebind (CompositeSpriteValue (format_04b va) (format_04b vb)) (\<lambda>hi.
     ebind (CompositeSpriteValue (format_04b wa) (format_04b wb)) (\<lambda>low.
     Inr (hi @ low)))))))))"

text \<open>A loop that collects one result per element and stops at the first exception.\<close>

fun collect :: "('a \<Rightarrow> error + 'b) \<Rightarrow> 'a list \<Rightarrow> error + 'b list" where
  "collect f [] = Inr []"
| "collect f (x # xs) = ebind (f x) (\<lambda>y. ebind (collect f xs) (\<lambda>ys. Inr (y # ys)))"

text \<open>\<open>LoadSprite\<close> returns the decoded tile; the caller appends it to \<open>self.sprites\<close>.\<close>

definition LoadSprite :: "byte list \<Rightarrow> error + string list" where
  "LoadSprite sprite_data =
     (let channel_a = hexlify (py_slice sprite_data 0 8);
          channel_b = hexlify (py_slice sprite_data 8 16)
      in collect
           (\<lambda>position. sprite_row
              (py_slice channel_a (int position) (int position + 2))
              (py_slice channel_b (int position) (int position + 2)))
           (py_range 0 16 2))"

text \<open>\<open>GetSpriteSize\<close>: \<open>max(sprite, key=len)\<close> raises ValueError on an empty sequence and
  otherwise returns the first row of greatest length.\<close>

definition max_by_len :: "'a list \<Rightarrow> 'a list list \<Rightarrow> 'a list" where
  "max_by_len r rs = fold (\<lambda>x m. if length m < length x then x else m) rs r"

definition GetSpriteSize :: "int list list \<Rightarrow> error + nat \<times> nat" where
  "GetSpriteSize sprite =
     (case sprite of
        [] \<Rightarrow> Inl ValueError
      | r # rs \<Rightarrow> Inr (length (max_by_len r rs) * 8, length sprite * 8))"

section \<open>Images\<close>

text \<open>
  A PIL image is an object: the program holds references to it, \<open>putpixel\<close> and \<open>paste\<close>
  change it in place, \<open>Image.new\<close> and \<open>copy\<close> allocate a fresh one. The store is the list of
  all images allocated so far and a reference is a position in it. An image has a mode, a
  size (width, height) and one colour per coordinate inside the size. Rendering glyphs is
  the font library's work: a call of \<open>ImageDraw.text\<close> is recorded in \<open>texts\<close>, in call
  order, and leaves \<open>pixels\<close> alone.
\<close>

record image =
  mode :: string
  size_px :: "nat \<times> nat"
  pixels :: "nat \<times> nat \<Rightarrow> rgb"
  texts :: "((nat \<times> nat) \<times> string \<times> rgb) list"

type_synonym heap = "image list"
type_synonym ref = nat

definition white :: rgb where
  "white = (255, 255, 255)"

definition Image_new :: "heap \<Rightarrow> string \<Rightarrow> nat \<times> nat \<Rightarrow> rgb \<Rightarrow> ref \<times> heap" where
  "Image_new h m sz colour =
     (length h, h @ [\<lparr>mode = m, size_px = sz, pixels = (\<lambda>_. colour), texts = []\<rparr>])"

text \<open>\<open>dst.paste(src, (ox, oy))\<close>: the pixels of \<open>src\<close> replace those of \<open>dst\<close> in the
  rectangle of the size of \<open>src\<close> whose top-left corner is \<open>(ox, oy)\<close>.\<close>

definition paste :: "heap \<Rightarrow> ref \<Rightarrow> ref \<Rightarrow> nat \<times> nat \<Rightarrow> heap" where
  "paste h dst src corner =
     (let (ox, oy) = corner; (w, ht) = size_px (h ! src); old = pixels (h ! dst); new = pixels (h ! src)
      in h[dst := (h ! dst)
            \<lparr>pixels := (\<lambda>(x, y). if ox \<le> x \<and> x < ox + w \<and> oy \<le> y \<and> y < oy + ht
                                 then new (x - ox, y - oy) else old (x, y)),
             texts := texts (h ! dst) @
                      map (\<lambda>((tx, ty), t). ((tx + ox, ty + oy), t)) (texts (h ! src))\<rparr>])"

definition copy :: "heap \<Rightarrow> ref \<Rightarrow> ref \<times> heap" where
  "copy h img = (length h, h @ [h ! img])"

text \<open>\<open>img.putpixel((x, y), colour)\<close> raises IndexError outside the image.\<close>

definition putpixel :: "ref \<Rightarrow> nat \<times> nat \<Rightarrow> rgb \<Rightarrow> heap \<Rightarrow> (error + unit) \<times> heap" where
  "putpixel img xy colour h =
     (if fst xy < fst (size_px (h ! img)) \<and> snd xy < snd (size_px (h ! img))
      then (Inr (), h[img := (h ! img)\<lparr>pixels := (pixels (h ! img))(xy := colour)\<rparr>])
      else (Inl IndexError, h))"

definition draw_text :: "ref \<Rightarrow> nat \<times> nat \<Rightarrow> string \<Rightarrow> rgb \<Rightarrow> heap \<Rightarrow> heap" where
  "draw_text img xy s colour h = h[img := (h ! img)\<lparr>texts := texts (h ! img) @ [(xy, s, colour)]\<rparr>]"

text \<open>A \<open>for\<close> loop over a sequence whose body changes the state: the first exception ends
  the loop, and what the earlier passes changed stays changed.\<close>

fun for_each :: "('a \<Rightarrow> 's \<Rightarrow> (error + unit) \<times> 's) \<Rightarrow> 'a list \<Rightarrow> 's \<Rightarrow> (error + unit) \<times> 's" where
  "for_each f [] s = (Inr (), s)"
| "for_each f (x # xs) s =
     (case f x s of
        (Inl e, s') \<Rightarrow> (Inl e, s')
      | (Inr u, s') \<Rightarrow> for_each f xs s')"

definition MaybeEnlargeImage :: "heap \<Rightarrow> ref \<Rightarrow> nat \<Rightarrow> nat \<Rightarrow> nat \<Rightarrow> nat \<Rightarrow> ref \<times> heap" where
  "MaybeEnlargeImage h img width height x_val y_val =
     (let (img_width, img_height) = size_px (h ! img);
          max_width = max img_width (width + x_val);
          max_height = max img_height (height + y_val)
      in if max_height > img_height \<or> max_width > img_width then
           (let (enlarged_image, h1) = Image_new h (mode (h ! img)) (max_width, max_height) white;
                h2 = paste h1 enlarged_image img (0, 0)
            in copy h2 enlarged_image)
         else (img, h))"

section \<open>The reader\<close>

type_synonym palette = "string \<rightharpoonup> rgb"
type_synonym tile = "string list"

definition DEFAULT_PALETTE :: palette where
  "DEFAULT_PALETTE =
     [''0'' \<mapsto> (0xff, 0xff, 0xff), ''1'' \<mapsto> (0x75, 0x75, 0x75),
      ''2'' \<mapsto> (0xbc, 0xbc, 0xbc), ''3'' \<mapsto> (0x00, 0x00, 0x00)]"

record NESSpriteReader =
  file_data :: "byte list"
  constant_hdr :: "byte list"
  prg_banks :: nat
  chr_banks :: nat
  flags_6 :: nat
  flags_7 :: nat
  prg_ram_size :: nat
  flags_9 :: nat
  flags_10 :: nat
  zero_fill :: nat
  prg_length :: nat
  chr_length :: nat
  prg_start :: nat
  chr_start :: nat
  chr_data :: "byte list"
  sprites :: "tile list"
  palettes :: "string \<rightharpoonup> palette"

text \<open>
  The module \<open>nes_palette\<close> is not among the sources. Its table \<open>NES_PALETTE\<close> is a parameter
  \<open>nes\<close> of the functions that read it: a dictionary from a byte of the file to a colour, a
  missing key raising KeyError.
\<close>

definition palette_colour :: "(byte \<rightharpoonup> rgb) \<Rightarrow> byte list \<Rightarrow> int \<Rightarrow> error + rgb" where
  "palette_colour nes palette_bytes k =
     ebind (py_getitem palette_bytes k)
       (\<lambda>b. case nes b of None \<Rightarrow> Inl KeyError | Some c \<Rightarrow> Inr c)"

text \<open>The dictionary display in the loop of \<open>LoadPalettes\<close>; its four values are evaluated
  in the order they are written, so the bytes are read in the order 0, 2, 1, 3.\<close>

definition palette_entries :: "(byte \<rightharpoonup> rgb) \<Rightarrow> byte list \<Rightarrow> error + palette" where
  "palette_entries nes palette_bytes =
     ebind (palette_colour nes palette_bytes 0) (\<lambda>c0.
     ebind (palette_colour nes palette_bytes 2) (\<lambda>c1.
     ebind (palette_colour nes palette_bytes 1) (\<lambda>c2.
     ebind (palette_colour nes palette_bytes 3) (\<lambda>c3.
     Inr [''0'' \<mapsto> c0, ''1'' \<mapsto> c1, ''2'' \<mapsto> c2, ''3'' \<mapsto> c3]))))"

text \<open>The body of the loop of \<open>LoadPalettes\<close>.\<close>

definition load_palette ::
  "(byte \<rightharpoonup> rgb) \<Rightarrow> string \<times> int \<Rightarrow> NESSpriteReader \<Rightarrow> (error + unit) \<times> NESSpriteReader" where
  "load_palette nes entry self =
     (let (palette_name, address) = entry;
          palette_bytes = py_slice (file_data self) address (address + 4)
      in case palette_entries nes palette_bytes of
           Inl e \<Rightarrow> (Inl e, self)
         | Inr p \<Rightarrow> (Inr (), self\<lparr>palettes := (palettes self)(palette_name \<mapsto> p)\<rparr>))"

definition LoadPalettes ::
  "(byte \<rightharpoonup> rgb) \<Rightarrow> (string \<times> int) list \<Rightarrow> NESSpriteReader \<Rightarrow> (error + unit) \<times> NESSpriteReader" where
  "LoadPalettes nes pals self = for_each (load_palette nes) pals self"

text \<open>\<open>ConvertToHex(self._file_data[k])\<close> for one byte of the header.\<close>

definition header_byte :: "byte list \<Rightarrow> int \<Rightarrow> error + nat" where
  "header_byte data k = ebind (py_getitem data k) (\<lambda>b. ConvertToHex [b])"

text \<open>The loop of \<open>__init__\<close> that decodes the tiles:
  \<open>for index in range(0, self.chr_length, 16): self.LoadSprite(self.chr_data[index:index+16])\<close>.
  It returns the tiles in the order they are appended to \<open>self.sprites\<close>.\<close>

definition load_sprites :: "byte list \<Rightarrow> nat \<Rightarrow> error + tile list" where
  "load_sprites chr_dat chr_len =
     collect (\<lambda>index. LoadSprite (py_slice chr_dat (int index) (int index + 16)))
       (py_range 0 chr_len 16)"

text \<open>The end of \<open>__init__\<close>: \<open>if palettes: self.LoadPalettes(palettes)\<close>; \<open>None\<close> and an
  empty sequence are false.\<close>

definition init_palettes ::
  "(byte \<rightharpoonup> rgb) \<Rightarrow> (string \<times> int) list option \<Rightarrow> NESSpriteReader \<Rightarrow> error + NESSpriteReader" where
  "init_palettes nes pals self =
     (case pals of
        None \<Rightarrow> Inr self
      | Some ps \<Rightarrow>
          if ps = [] then Inr self
          else (case LoadPalettes nes ps self of
                  (Inl e, self') \<Rightarrow> Inl e
                | (Inr u, self') \<Rightarrow> Inr self'))"

text \<open>\<open>__init__\<close>, from the content of the file (reading the file is not modelled). An
  exception leaves no reader.\<close>

definition init ::
  "(byte \<rightharpoonup> rgb) \<Rightarrow> byte list \<Rightarrow> (string \<times> int) list option \<Rightarrow> error + NESSpriteReader" where
  "init nes data pals =
     ebind (header_byte data 4) (\<lambda>prg.
     ebind (header_byte data 5) (\<lambda>chr.
     ebind (header_byte data 6) (\<lambda>f6.
     ebind (header_byte data 7) (\<lambda>f7.
     ebind (header_byte data 8) (\<lambda>ram.
     ebind (header_byte data 9) (\<lambda>f9.
     ebind (header_byte data 0xA) (\<lambda>f10.
     ebind (ConvertToHex (py_slice data 0xA 0xF)) (\<lambda>zf.
     (let header_length = 16;
          prg_len = prg * 16384;
          chr_len = chr * 8192;
          chr_st = header_length + prg_len;
          chr_dat = py_slice data (int chr_st) (int (chr_st + chr_len))
      in ebind (load_sprites chr_dat chr_len) (\<lambda>tiles.
         init_palettes nes pals
           \<lparr>file_data = data, constant_hdr = py_slice data 0 4,
            prg_banks = prg, chr_banks = chr, flags_6 = f6, flags_7 = f7,
            prg_ram_size = ram, flags_9 = f9, flags_10 = f10, zero_fill = zf,
            prg_length = prg_len, chr_length = chr_len,
            prg_start = header_length, chr_start = chr_st,
            chr_data = chr_dat, sprites = tiles, palettes = Map.empty\<rparr>))))))))))"

section \<open>Drawing\<close>

text \<open>The four nested loops of \<open>DrawSprite\<close>, innermost first.\<close>

definition draw_pixels ::
  "ref \<Rightarrow> palette \<Rightarrow> nat \<Rightarrow> nat \<Rightarrow> nat \<Rightarrow> nat \<Rightarrow> nat \<times> string \<Rightarrow> heap \<Rightarrow> (error + unit) \<times> heap" where
  "draw_pixels img pal x_val y_val block_row_index block_col_index entry =
     (let (sprite_row_index, sprite_row) = entry
      in for_each
           (\<lambda>(sprite_col_index, value) h.
              (let x_coord = x_val + sprite_col_index + (block_col_index * 8);
                   y_coord = y_val + sprite_row_index + (block_row_index * 8)
               in case pal [value] of
                    None \<Rightarrow> (Inl KeyError, h)
                  | Some colour \<Rightarrow> putpixel img (x_coord, y_coord) colour h))
           (py_enumerate sprite_row))"

definition draw_tile ::
  "NESSpriteReader \<Rightarrow> ref \<Rightarrow> palette \<Rightarrow> nat \<Rightarrow> nat \<Rightarrow> nat \<Rightarrow> nat \<times> int \<Rightarrow> heap \<Rightarrow> (error + unit) \<times> heap" where
  "draw_tile self img pal x_val y_val block_row_index entry h =
     (let (block_col_index, sprite_number) = entry
      in case py_getitem (sprites self) sprite_number of
           Inl e \<Rightarrow> (Inl e, h)
         | Inr sprite \<Rightarrow>
             for_each (draw_pixels img pal x_val y_val block_row_index block_col_index)
               (py_enumerate sprite) h)"

definition draw_block_row ::
  "NESSpriteReader \<Rightarrow> ref \<Rightarrow> palette \<Rightarrow> nat \<Rightarrow> nat \<Rightarrow> nat \<times> int list \<Rightarrow> heap \<Rightarrow> (error + unit) \<times> heap" where
  "draw_block_row self img pal x_val y_val entry =
     (let (block_row_index, row) = entry
      in for_each (draw_tile self img pal x_val y_val block_row_index) (py_enumerate row))"

text \<open>\<open>DrawSprite\<close>. The layout (the argument \<open>sprites\<close> of the source, \<open>None\<close> by default) is
  \<open>layout\<close> here, as \<open>sprites\<close> is the reader's field. It returns the reference of the image
  drawn on and the store; on an exception the store holds what was drawn before it.\<close>

definition DrawSprite ::
  "NESSpriteReader \<Rightarrow> heap \<Rightarrow> ref option \<Rightarrow> int list list option \<Rightarrow> palette option \<Rightarrow> nat \<Rightarrow> nat
     \<Rightarrow> (error + ref) \<times> heap" where
  "DrawSprite self h img layout pal x_val y_val =
     (case layout of
        None \<Rightarrow> (Inl TypeError, h)
      | Some rows \<Rightarrow>
          (case GetSpriteSize rows of
             Inl e \<Rightarrow> (Inl e, h)
           | Inr (width, height) \<Rightarrow>
               (let (img1, h1) =
                      (case img of
                         None \<Rightarrow> Image_new h ''RGB'' (width + x_val, height + y_val) white
                       | Some i \<Rightarrow> MaybeEnlargeImage h i width height x_val y_val);
                    pal1 = (case pal of None \<Rightarrow> DEFAULT_PALETTE | Some p \<Rightarrow> p)
                in case for_each (draw_block_row self img1 pal1 x_val y_val) (py_enumerate rows) h1 of
                     (Inl e, h2) \<Rightarrow> (Inl e, h2)
                   | (Inr u, h2) \<Rightarrow> (Inr img1, h2))))"

section \<open>The sprite sheet\<close>

text \<open>The inner loop of \<open>WriteAndNumberAllSprites\<close>: \<open>except IndexError: break\<close> ends the row
  without an exception; any other exception goes on to the caller. The image that
  \<open>DrawSprite\<close> returns is dropped: the loop keeps drawing on \<open>img\<close>.\<close>

fun draw_sheet_row ::
  "NESSpriteReader \<Rightarrow> ref \<Rightarrow> palette \<Rightarrow> nat \<Rightarrow> nat \<Rightarrow> nat list \<Rightarrow> heap \<Rightarrow> (error + unit) \<times> heap" where
  "draw_sheet_row self img pal row_index y_offset [] h = (Inr (), h)"
| "draw_sheet_row self img pal row_index y_offset (col_index # cols) h =
     (case DrawSprite self h (Some img) (Some [[int (row_index + col_index)]]) (Some pal)
             (col_index * 8) y_offset of
        (Inl e, h') \<Rightarrow> if e = IndexError then (Inr (), h') else (Inl e, h')
      | (Inr r, h') \<Rightarrow> draw_sheet_row self img pal row_index y_offset cols h')"

definition draw_sheet_line ::
  "NESSpriteReader \<Rightarrow> ref \<Rightarrow> palette \<Rightarrow> nat \<Rightarrow> nat \<Rightarrow> heap \<Rightarrow> (error + unit) \<times> heap" where
  "draw_sheet_line self img pal per_row row_index h =
     (let y_offset = (row_index div per_row) * 8
      in case draw_sheet_row self img pal row_index y_offset (py_range 0 per_row 1) h of
           (Inl e, h') \<Rightarrow> (Inl e, h')
         | (Inr u, h') \<Rightarrow> (Inr (), draw_text img (0, y_offset) (py_str row_index) (0, 255, 0) h'))"

text \<open>\<open>WriteAndNumberAllSprites\<close> returns what \<open>img.save(file_name)\<close> writes: the name and
  the image.\<close>

definition WriteAndNumberAllSprites ::
  "NESSpriteReader \<Rightarrow> heap \<Rightarrow> string \<Rightarrow> palette option \<Rightarrow> nat \<Rightarrow> (error + string \<times> image) \<times> heap" where
  "WriteAndNumberAllSprites self h file_name pal per_row =
     (if per_row = 0 then (Inl ZeroDivisionError, h)
      else
        (let height = ((length (sprites self) div per_row) + 1) * 8;
             (img, h1) = Image_new h ''RGB'' (8 * per_row, height) white;
             pal1 = (case pal of None \<Rightarrow> DEFAULT_PALETTE | Some p \<Rightarrow> p)
         in case for_each (draw_sheet_line self img pal1 per_row)
                   (py_range 0 (length (sprites self)) per_row) h1 of
              (Inl e, h2) \<Rightarrow> (Inl e, h2)
            | (Inr u, h2) \<Rightarrow> (Inr (file_name, h2 ! img), h2)))"

section \<open>Basic facts\<close>

lemma ebind_simps [simp]: "ebind (Inr x) f = f x" "ebind (Inl e) f = Inl e"
  by (simp_all add: ebind_def)

section \<open>Claims\<close>

text \<open>
  Claim C10. \<open>DrawSprite\<close> is partial: with a layout of zero rows the size computation
  \<open>GetSpriteSize\<close> raises (the maximum of an empty sequence, a ValueError), so \<open>DrawSprite\<close>
  raises too, whatever the other arguments; it returns no canvas, allocates none, and
  leaves every existing image as it was, rather than returning an empty 0-by-0 canvas.
\<close>

theorem DrawSprite_empty_layout_fails:
  "GetSpriteSize [] = Inl ValueError \<and>
   DrawSprite self h img (Some []) pal x_val y_val = (Inl ValueError, h)"
  by (simp add: GetSpriteSize_def DrawSprite_def)

subsection \<open>Tile decoding\<close>

lemma digit_value_digit_char_all: "\<forall>n\<in>set [0..<16]. digit_value (digit_char n) = Some n"
  by code_simp

lemma digit_value_digit_char: "n < 16 \<Longrightarrow> digit_value (digit_char n) = Some n"
  using digit_value_digit_char_all by simp

lemma py_int_hex_digit: "n < 16 \<Longrightarrow> py_int [digit_char n] 16 = Inr n"
  by (simp add: py_int_def digit_value_digit_char)

lemma format_04b_all:
  "\<forall>n\<in>set [0..<16]. format_04b n =
     [if bit n 3 then CHR ''1'' else CHR ''0'', if bit n 2 then CHR ''1'' else CHR ''0'',
      if bit n 1 then CHR ''1'' else CHR ''0'', if bit n 0 then CHR ''1'' else CHR ''0'']"
  by code_simp

lemma format_04b_bits:
  "n < 16 \<Longrightarrow> format_04b n =
     [if bit n 3 then CHR ''1'' else CHR ''0'', if bit n 2 then CHR ''1'' else CHR ''0'',
      if bit n 1 then CHR ''1'' else CHR ''0'', if bit n 0 then CHR ''1'' else CHR ''0'']"
  using format_04b_all by simp

lemma Composite_step:
  "CompositeSpriteValue ((if a then CHR ''1'' else CHR ''0'') # r1) ((if b then CHR ''1'' else CHR ''0'') # r2) =
     ebind (CompositeSpriteValue r1 r2)
       (\<lambda>rest. Inr ((if a then (if b then CHR ''3'' else CHR ''2'') else (if b then CHR ''1'' else CHR ''0'')) # rest))"
  by (cases a; cases b) (simp_all add: py_int_def digit_value_def py_str_def digit_char_def)

lemma Composite_nibbles:
  assumes "n < 16" "m < 16"
  shows "CompositeSpriteValue (format_04b n) (format_04b m) =
     Inr (map (\<lambda>k. if bit n k then (if bit m k then CHR ''3'' else CHR ''2'')
                   else (if bit m k then CHR ''1'' else CHR ''0'')) [3, 2, 1, 0])"
  unfolding format_04b_bits [OF assms(1)] format_04b_bits [OF assms(2)] Composite_step
  by simp

lemma bit_hi_nibble: "bit (unat (A :: byte) div 16) k \<longleftrightarrow> bit A (k + 4)"
proof -
  have "unat A div 16 = drop_bit 4 (unat A)" by (simp add: drop_bit_eq_div)
  then show ?thesis by (simp add: bit_drop_bit_eq bit_unsigned_iff add.commute)
qed

lemma bit_lo_nibble: "bit (unat (A :: byte) mod 16) k \<longleftrightarrow> k < 4 \<and> bit A k"
proof -
  have "unat A mod 16 = take_bit 4 (unat A)" by (simp add: take_bit_eq_mod)
  then show ?thesis by (simp add: bit_take_bit_iff bit_unsigned_iff)
qed

lemma hi_nibble_less: "unat (A :: byte) div 16 < 16"
proof -
  have "unat A < 256" using unsigned_less [of A] by simp
  then show ?thesis by simp
qed

lemma sprite_row_bytes:
  fixes A B :: byte
  shows "sprite_row [digit_char (unat A div 16), digit_char (unat A mod 16)]
           [digit_char (unat B div 16), digit_char (unat B mod 16)] =
    Inr (map (\<lambda>k. if bit A k then (if bit B k then CHR ''3'' else CHR ''2'')
                  else (if bit B k then CHR ''1'' else CHR ''0'')) [7, 6, 5, 4, 3, 2, 1, 0])"
proof -
  have lo: "unat A mod 16 < 16" "unat B mod 16 < 16" by simp_all
  show ?thesis
    by (simp add: sprite_row_def unpack_pair_def py_int_hex_digit hi_nibble_less lo
        Composite_nibbles bit_hi_nibble bit_lo_nibble del: CompositeSpriteValue.simps)
qed


lemma py_slice_nat: "py_slice xs (int i) (int j) = take (j - i) (drop i xs)"
  by (cases "i < length xs"; cases "j < length xs")
     (simp_all add: py_slice_def clamp_index_def min_def)

lemma hexlify_Cons:
  "hexlify (b # bs) = digit_char (unat b div 16) # digit_char (unat b mod 16) # hexlify bs"
  by (simp add: hexlify_def)

lemma hexlify_Nil: "hexlify [] = []"
  by (simp add: hexlify_def)

lemma length_hexlify: "length (hexlify bs) = 2 * length bs"
  by (induction bs) (simp_all add: hexlify_Cons hexlify_Nil)

lemma drop_hexlify: "drop (2 * i) (hexlify bs) = hexlify (drop i bs)"
proof (induction bs arbitrary: i)
  case Nil
  then show ?case by (simp add: hexlify_Nil)
next
  case (Cons b bs)
  show ?case
  proof (cases i)
    case 0
    then show ?thesis by simp
  next
    case (Suc k)
    then show ?thesis using Cons [of k] by (simp add: hexlify_Cons)
  qed
qed

lemma py_slice_two: "py_slice xs (int a) (int a + 2) = take 2 (drop a xs)"
proof -
  have "int a + 2 = int (a + 2)" by simp
  show ?thesis unfolding \<open>int a + 2 = int (a + 2)\<close> py_slice_nat by simp
qed

lemma hexlify_slice:
  assumes "i < length bs"
  shows "py_slice (hexlify bs) (int (2 * i)) (int (2 * i) + 2) =
           [digit_char (unat (bs ! i) div 16), digit_char (unat (bs ! i) mod 16)]"
proof -
  have "take 2 (drop (2 * i) (hexlify bs)) = take 2 (hexlify (bs ! i # drop (Suc i) bs))"
    using assms by (simp only: drop_hexlify Cons_nth_drop_Suc)
  then show ?thesis unfolding py_slice_two by (simp add: hexlify_Cons)
qed

lemma collect_Inr: "(\<And>x. x \<in> set xs \<Longrightarrow> f x = Inr (g x)) \<Longrightarrow> collect f xs = Inr (map g xs)"
  by (induction xs) simp_all

lemma LoadSprite_16:
  assumes "length sprite_data = 16"
  shows "LoadSprite sprite_data =
     Inr (map (\<lambda>i. map (\<lambda>k. if bit (sprite_data ! i) k
                              then (if bit (sprite_data ! (i + 8)) k then CHR ''3'' else CHR ''2'')
                              else (if bit (sprite_data ! (i + 8)) k then CHR ''1'' else CHR ''0''))
                       [7, 6, 5, 4, 3, 2, 1, 0]) [0..<8])"
proof -
  define ca where "ca = take 8 sprite_data"
  define cb where "cb = take 8 (drop 8 sprite_data)"
  define row where "row = (\<lambda>i. map (\<lambda>k. if bit (sprite_data ! i) k
                              then (if bit (sprite_data ! (i + 8)) k then CHR ''3'' else CHR ''2'')
                              else (if bit (sprite_data ! (i + 8)) k then CHR ''1'' else CHR ''0''))
                       [7, 6, 5, 4, 3, 2, 1, 0::nat])"
  have sl: "py_slice sprite_data 0 8 = ca" "py_slice sprite_data 8 16 = cb"
    using py_slice_nat [of sprite_data 0 8] py_slice_nat [of sprite_data 8 16]
    by (simp_all add: ca_def cb_def)
  have len: "length ca = 8" "length cb = 8"
    using assms by (simp_all add: ca_def cb_def)
  have nth: "ca ! i = sprite_data ! i" "cb ! i = sprite_data ! (i + 8)" if "i < 8" for i
    using that assms by (simp_all add: ca_def cb_def add.commute)
  have rng: "py_range 0 16 2 = map (\<lambda>k. 2 * k) [0..<8]"
    by (simp add: py_range_def mult.commute)
  have step: "sprite_row (py_slice (hexlify ca) (int position) (int position + 2))
                (py_slice (hexlify cb) (int position) (int position + 2)) = Inr (row (position div 2))"
    if "position \<in> set (map (\<lambda>k. 2 * k) [0..<8])" for position
  proof -
    from that obtain i where i: "i < 8" "position = 2 * i" by auto
    have a: "py_slice (hexlify ca) (int (2 * i)) (int (2 * i) + 2) =
               [digit_char (unat (ca ! i) div 16), digit_char (unat (ca ! i) mod 16)]"
      by (rule hexlify_slice) (simp add: len i(1))
    have b: "py_slice (hexlify cb) (int (2 * i)) (int (2 * i) + 2) =
               [digit_char (unat (cb ! i) div 16), digit_char (unat (cb ! i) mod 16)]"
      by (rule hexlify_slice) (simp add: len i(1))
    have d: "2 * i div 2 = i" by simp
    show ?thesis
      unfolding i(2) a b d sprite_row_bytes nth [OF i(1)] row_def ..
  qed
  have "LoadSprite sprite_data = Inr (map (\<lambda>position. row (position div 2)) (map (\<lambda>k. 2 * k) [0..<8]))"
    unfolding LoadSprite_def sl Let_def rng
    by (rule collect_Inr) (rule step)
  then show ?thesis by (simp add: row_def comp_def)
qed


lemma up8: "[0..<8] = [0, 1, 2, 3, 4, 5, 6, 7::nat]"
  by (simp add: upt_conv_Cons)

lemma rev8: "[7, 6, 5, 4, 3, 2, 1, 0::nat] = map (\<lambda>j. 7 - j) [0..<8]"
  by (simp add: up8)

lemma replicate8: "replicate 8 x = [x, x, x, x, x, x, x, x]"
  by (simp add: numeral_eq_Suc)

lemma LoadSprite_zero: "LoadSprite (replicate 16 0) = Inr (replicate 8 ''00000000'')"
proof -
  have "length (replicate 16 (0::byte)) = 16" by simp
  from LoadSprite_16 [OF this] show ?thesis
    by (simp add: up8 replicate8)
qed

lemma LoadSprite_planeA: "LoadSprite (replicate 8 255 @ replicate 8 0) = Inr (replicate 8 ''22222222'')"
proof -
  have "length (replicate 8 (255::byte) @ replicate 8 0) = 16" by simp
  from LoadSprite_16 [OF this] show ?thesis
    by (simp add: up8 nth_append replicate8)
qed

text \<open>
  Claim C1. A record of 16 bytes decodes without an exception to a tile of exactly 8 rows
  of 8 pixel-index characters. Row \<open>i\<close> combines byte \<open>i\<close> (plane A) with byte \<open>8 + i\<close>
  (plane B): the pixel at column \<open>j\<close>, counted from the left, is made of bit \<open>7 - j\<close> of
  each, so the four bits of the high nibble come first and those of the low nibble
  follow; bits (a, b) give 0 for (0, 0), 1 for (0, 1), 2 for (1, 0) and 3 for (1, 1).
  Sixteen zero bytes decode to a tile whose every pixel is 0; plane A of eight bytes 0xFF
  with plane B of eight zero bytes decodes to a tile whose every pixel is 2.
\<close>

theorem LoadSprite_decodes_tile:
  "(length sprite_data = 16 \<longrightarrow>
      (\<exists>tile. LoadSprite sprite_data = Inr tile \<and> length tile = 8 \<and>
         (\<forall>i<8. length (tile ! i) = 8 \<and>
            (\<forall>j<8. tile ! i ! j =
               (if bit (sprite_data ! i) (7 - j)
                then (if bit (sprite_data ! (8 + i)) (7 - j) then CHR ''3'' else CHR ''2'')
                else (if bit (sprite_data ! (8 + i)) (7 - j) then CHR ''1'' else CHR ''0'')))))) \<and>
   LoadSprite (replicate 16 0) = Inr (replicate 8 ''00000000'') \<and>
   LoadSprite (replicate 8 255 @ replicate 8 0) = Inr (replicate 8 ''22222222'')"
proof (intro conjI impI)
  assume len: "length sprite_data = 16"
  show "\<exists>tile. LoadSprite sprite_data = Inr tile \<and> length tile = 8 \<and>
         (\<forall>i<8. length (tile ! i) = 8 \<and>
            (\<forall>j<8. tile ! i ! j =
               (if bit (sprite_data ! i) (7 - j)
                then (if bit (sprite_data ! (8 + i)) (7 - j) then CHR ''3'' else CHR ''2'')
                else (if bit (sprite_data ! (8 + i)) (7 - j) then CHR ''1'' else CHR ''0''))))"
    unfolding LoadSprite_16 [OF len] rev8
    by (simp add: add.commute)
qed (rule LoadSprite_zero LoadSprite_planeA)+

theorem LoadSprite_decodes_tile_witness:
  "length [0x41, 0xc2, 0x33, 4, 5, 6, 7, 8, 9, 10, 11, 12, 13, 14, 15, 16 :: byte] = 16 \<and>
   (\<exists>tile. LoadSprite [0x41, 0xc2, 0x33, 4, 5, 6, 7, 8, 9, 10, 11, 12, 13, 14, 15, 16] = Inr tile \<and>
      length tile = 8 \<and> tile ! 0 ! 1 = CHR ''2'' \<and> tile ! 0 ! 7 = CHR ''3'')"
proof -
  let ?r = "[0x41, 0xc2, 0x33, 4, 5, 6, 7, 8, 9, 10, 11, 12, 13, 14, 15, 16 :: byte]"
  have len: "length ?r = 16" by simp
  from LoadSprite_decodes_tile [of ?r] len
  obtain tile where t: "LoadSprite ?r = Inr tile" "length tile = 8"
    and px: "\<forall>i<8. length (tile ! i) = 8 \<and>
            (\<forall>j<8. tile ! i ! j =
               (if bit (?r ! i) (7 - j)
                then (if bit (?r ! (8 + i)) (7 - j) then CHR ''3'' else CHR ''2'')
                else (if bit (?r ! (8 + i)) (7 - j) then CHR ''1'' else CHR ''0'')))"
    by blast
  from px have "tile ! 0 ! 1 = CHR ''2''" "tile ! 0 ! 7 = CHR ''3''"
    by simp_all
  with t len show ?thesis by blast
qed

subsection \<open>Palette resolution\<close>

lemma py_slice_from_nat:
  "0 \<le> address \<Longrightarrow> py_slice xs address (address + 4) = take 4 (drop (nat address) xs)"
  using py_slice_nat [of xs "nat address" "nat address + 4"] by simp

lemma take4_drop:
  assumes "n + 4 \<le> length xs"
  shows "take 4 (drop n xs) = [xs ! n, xs ! (n + 1), xs ! (n + 2), xs ! (n + 3)]"
proof -
  have "drop n xs = xs ! n # xs ! (n + 1) # xs ! (n + 2) # xs ! (n + 3) # drop (n + 4) xs"
    using assms by (simp add: Cons_nth_drop_Suc [symmetric] numeral_eq_Suc)
  then show ?thesis by simp
qed

lemma palette_entries_four:
  "palette_entries nes [a, b, c, d] =
     (case nes a of None \<Rightarrow> Inl KeyError | Some ca \<Rightarrow>
      (case nes c of None \<Rightarrow> Inl KeyError | Some cc \<Rightarrow>
       (case nes b of None \<Rightarrow> Inl KeyError | Some cb \<Rightarrow>
        (case nes d of None \<Rightarrow> Inl KeyError | Some cd \<Rightarrow>
           Inr [''0'' \<mapsto> ca, ''1'' \<mapsto> cc, ''2'' \<mapsto> cb, ''3'' \<mapsto> cd]))))"
  by (simp add: palette_entries_def palette_colour_def py_getitem_def split: option.splits)

lemma palette_entries_short:
  assumes "length pb < 4"
  shows "(palette_entries nes pb = Inl IndexError \<or> palette_entries nes pb = Inl KeyError) \<and>
         ((\<forall>b\<in>set pb. nes b \<noteq> None) \<longrightarrow> palette_entries nes pb = Inl IndexError)"
proof -
  from assms consider "pb = []" | x where "pb = [x]" | x y where "pb = [x, y]"
    | x y z where "pb = [x, y, z]"
    by (cases pb rule: list.exhaust; simp; rename_tac v vs; case_tac vs; simp;
        rename_tac w ws; case_tac ws; simp; rename_tac u us; case_tac us; simp)
  then show ?thesis
    by cases
       (auto simp: palette_entries_def palette_colour_def py_getitem_def split: option.splits)
qed


lemma load_palette_in_bounds:
  assumes "0 \<le> address" "address + 4 \<le> int (length (file_data self))"
  shows "load_palette nes (palette_name, address) self =
     (case palette_entries nes
             [file_data self ! nat address, file_data self ! (nat address + 1),
              file_data self ! (nat address + 2), file_data self ! (nat address + 3)] of
        Inl e \<Rightarrow> (Inl e, self)
      | Inr p \<Rightarrow> (Inr (), self\<lparr>palettes := (palettes self)(palette_name \<mapsto> p)\<rparr>))"
proof -
  have "nat address + 4 \<le> length (file_data self)" using assms by linarith
  then show ?thesis
    using assms(1) by (simp add: load_palette_def py_slice_from_nat take4_drop)
qed

lemma LoadPalettes_single:
  "LoadPalettes nes [entry] self = load_palette nes entry self"
  by (simp add: LoadPalettes_def split: prod.splits sum.splits)

text \<open>
  Claim C2. For a palette name and an address whose four bytes \<open>[a, b, c, d]\<close> lie inside
  the file, each with an entry in the colour table, palette resolution stores under that
  name the palette that maps "0" to the colour of \<open>a\<close>, "1" to the colour of \<open>c\<close>, "2" to
  the colour of \<open>b\<close> and "3" to the colour of \<open>d\<close> (bytes 1 and 2 swapped), and changes
  nothing else of the reader.
\<close>

theorem LoadPalettes_swaps_middle_bytes:
  assumes "0 \<le> address" and "address + 4 \<le> int (length (file_data self))"
    and "nes (file_data self ! nat address) = Some colour_a"
    and "nes (file_data self ! (nat address + 1)) = Some colour_b"
    and "nes (file_data self ! (nat address + 2)) = Some colour_c"
    and "nes (file_data self ! (nat address + 3)) = Some colour_d"
  shows "LoadPalettes nes [(palette_name, address)] self =
     (Inr (), self\<lparr>palettes := (palettes self)(palette_name \<mapsto>
        [''0'' \<mapsto> colour_a, ''1'' \<mapsto> colour_c, ''2'' \<mapsto> colour_b, ''3'' \<mapsto> colour_d])\<rparr>)"
  unfolding LoadPalettes_single load_palette_in_bounds [OF assms(1,2)] palette_entries_four
  using assms(3-6) by simp

theorem LoadPalettes_swaps_middle_bytes_witness:
  "(0::int) \<le> 0 \<and> (0::int) + 4 \<le> int (length [0x00, 0x16, 0x36, 0x0f :: byte]) \<and>
   fst (LoadPalettes (\<lambda>b. Some (unat b, 0, 0)) [(''regular_mario_palette'', 0)]
      \<lparr>file_data = [0x00, 0x16, 0x36, 0x0f], constant_hdr = [], prg_banks = 0, chr_banks = 0,
        flags_6 = 0, flags_7 = 0, prg_ram_size = 0, flags_9 = 0, flags_10 = 0, zero_fill = 0,
        prg_length = 0, chr_length = 0, prg_start = 16, chr_start = 16, chr_data = [],
        sprites = [], palettes = Map.empty\<rparr>) = Inr () \<and>
   map_option (\<lambda>p. (p ''0'', p ''1'', p ''2'', p ''3''))
     (palettes (snd (LoadPalettes (\<lambda>b. Some (unat b, 0, 0)) [(''regular_mario_palette'', 0)]
      \<lparr>file_data = [0x00, 0x16, 0x36, 0x0f], constant_hdr = [], prg_banks = 0, chr_banks = 0,
        flags_6 = 0, flags_7 = 0, prg_ram_size = 0, flags_9 = 0, flags_10 = 0, zero_fill = 0,
        prg_length = 0, chr_length = 0, prg_start = 16, chr_start = 16, chr_data = [],
        sprites = [], palettes = Map.empty\<rparr>)) ''regular_mario_palette'') =
     Some (Some (0x00, 0, 0), Some (0x36, 0, 0), Some (0x16, 0, 0), Some (0x0f, 0, 0))"
  using LoadPalettes_swaps_middle_bytes [of 0
      "\<lparr>file_data = [0x00, 0x16, 0x36, 0x0f], constant_hdr = [], prg_banks = 0, chr_banks = 0,
        flags_6 = 0, flags_7 = 0, prg_ram_size = 0, flags_9 = 0, flags_10 = 0, zero_fill = 0,
        prg_length = 0, chr_length = 0, prg_start = 16, chr_start = 16, chr_data = [],
        sprites = [], palettes = Map.empty\<rparr>"
      "\<lambda>b. Some (unat b, 0, 0)" "(0x00, 0, 0)" "(0x16, 0, 0)" "(0x36, 0, 0)" "(0x0f, 0, 0)"
      "''regular_mario_palette''"]
  by simp


subsection \<open>Enlarging a canvas\<close>

lemma MaybeEnlargeImage_fits:
  assumes "width + x_val \<le> fst (size_px (h ! img))" "height + y_val \<le> snd (size_px (h ! img))"
  shows "MaybeEnlargeImage h img width height x_val y_val = (img, h)"
  using assms by (auto simp: MaybeEnlargeImage_def Let_def split: prod.splits)

lemma MaybeEnlargeImage_grows:
  assumes "\<not> (width + x_val \<le> fst (size_px (h ! img)) \<and> height + y_val \<le> snd (size_px (h ! img)))"
    and "img < length h"
  shows "MaybeEnlargeImage h img width height x_val y_val =
     (Suc (length h),
      h @ [\<lparr>mode = mode (h ! img),
             size_px = (max (fst (size_px (h ! img))) (width + x_val),
                        max (snd (size_px (h ! img))) (height + y_val)),
             pixels = (\<lambda>(x, y). if x < fst (size_px (h ! img)) \<and> y < snd (size_px (h ! img))
                                 then pixels (h ! img) (x, y) else white),
             texts = texts (h ! img)\<rparr>,
           \<lparr>mode = mode (h ! img),
             size_px = (max (fst (size_px (h ! img))) (width + x_val),
                        max (snd (size_px (h ! img))) (height + y_val)),
             pixels = (\<lambda>(x, y). if x < fst (size_px (h ! img)) \<and> y < snd (size_px (h ! img))
                                 then pixels (h ! img) (x, y) else white),
             texts = texts (h ! img)\<rparr>])"
  using assms
  by (auto simp: MaybeEnlargeImage_def Image_new_def paste_def copy_def nth_append Let_def max_def
      split: prod.splits)


text \<open>
  Claim C7. Let a canvas of size (w, ht) be given to the enlargement step of a draw with
  footprint (width, height) at offset (x, y). When the canvas is large enough in both
  dimensions, the same canvas is returned and no image is changed. Otherwise a new canvas
  is allocated, of size exactly (max w (width + x), max ht (height + y)); every pixel of
  the old canvas has its old value at the same coordinates of the new one (the content is
  copied to the top-left origin, not moved and not cropped), the rest is white, and the
  images that existed before, the old canvas among them, are unchanged. In both cases the
  returned canvas is at least as large as the old one in each dimension and large enough
  for the footprint.
\<close>

theorem MaybeEnlargeImage_keeps_content:
  assumes "img < length h"
  shows
    "(width + x_val \<le> fst (size_px (h ! img)) \<and> height + y_val \<le> snd (size_px (h ! img)) \<longrightarrow>
        MaybeEnlargeImage h img width height x_val y_val = (img, h)) \<and>
     (\<not> (width + x_val \<le> fst (size_px (h ! img)) \<and> height + y_val \<le> snd (size_px (h ! img))) \<longrightarrow>
        (\<exists>img' h'. MaybeEnlargeImage h img width height x_val y_val = (img', h') \<and>
           length h \<le> img' \<and> img' < length h' \<and> take (length h) h' = h \<and>
           size_px (h' ! img') = (max (fst (size_px (h ! img))) (width + x_val),
                                  max (snd (size_px (h ! img))) (height + y_val)) \<and>
           (\<forall>x y. x < fst (size_px (h ! img)) \<and> y < snd (size_px (h ! img)) \<longrightarrow>
                  pixels (h' ! img') (x, y) = pixels (h ! img) (x, y)) \<and>
           (\<forall>x y. \<not> (x < fst (size_px (h ! img)) \<and> y < snd (size_px (h ! img))) \<longrightarrow>
                  pixels (h' ! img') (x, y) = white) \<and>
           texts (h' ! img') = texts (h ! img) \<and> mode (h' ! img') = mode (h ! img))) \<and>
     (case MaybeEnlargeImage h img width height x_val y_val of (img', h') \<Rightarrow>
        fst (size_px (h ! img)) \<le> fst (size_px (h' ! img')) \<and>
        snd (size_px (h ! img)) \<le> snd (size_px (h' ! img')) \<and>
        width + x_val \<le> fst (size_px (h' ! img')) \<and>
        height + y_val \<le> snd (size_px (h' ! img')))"
proof (cases "width + x_val \<le> fst (size_px (h ! img)) \<and> height + y_val \<le> snd (size_px (h ! img))")
  case True
  then show ?thesis by (simp add: MaybeEnlargeImage_fits)
next
  case False
  show ?thesis
    using False
    unfolding MaybeEnlargeImage_grows [OF False assms]
    by (simp add: nth_append)
qed

theorem MaybeEnlargeImage_keeps_content_witness:
  "0 < length [\<lparr>mode = ''RGB'', size_px = (8, 8), pixels = (\<lambda>_. white)((0, 0) := (1, 2, 3)), texts = []\<rparr>] \<and>
   (case MaybeEnlargeImage [\<lparr>mode = ''RGB'', size_px = (8, 8), pixels = (\<lambda>_. white)((0, 0) := (1, 2, 3)), texts = []\<rparr>] 0 8 8 1000 1000 of (img', h') \<Rightarrow>
      img' \<noteq> 0 \<and> h' ! 0 = \<lparr>mode = ''RGB'', size_px = (8, 8), pixels = (\<lambda>_. white)((0, 0) := (1, 2, 3)), texts = []\<rparr> \<and>
      size_px (h' ! img') = (1008, 1008) \<and> pixels (h' ! img') (0, 0) = (1, 2, 3) \<and>
      pixels (h' ! img') (8, 0) = white) \<and>
   MaybeEnlargeImage [\<lparr>mode = ''RGB'', size_px = (8, 8), pixels = (\<lambda>_. white)((0, 0) := (1, 2, 3)), texts = []\<rparr>] 0 8 8 0 0 = (0, [\<lparr>mode = ''RGB'', size_px = (8, 8), pixels = (\<lambda>_. white)((0, 0) := (1, 2, 3)), texts = []\<rparr>])"
proof -
  have len: "0 < length [\<lparr>mode = ''RGB'', size_px = (8, 8), pixels = (\<lambda>_. white)((0, 0) := (1, 2, 3)), texts = []\<rparr>]" by simp
  have sz: "size_px ([\<lparr>mode = ''RGB'', size_px = (8, 8), pixels = (\<lambda>_. white)((0, 0) := (1, 2, 3)), texts = []\<rparr>] ! 0) = (8, 8)" by simp
  have px: "pixels ([\<lparr>mode = ''RGB'', size_px = (8, 8), pixels = (\<lambda>_. white)((0, 0) := (1, 2, 3)), texts = []\<rparr>] ! 0) (0, 0) = (1, 2, 3)" by simp
  from MaybeEnlargeImage_keeps_content [OF len, of 8 1000 8 1000]
  obtain img' h' where r: "MaybeEnlargeImage [\<lparr>mode = ''RGB'', size_px = (8, 8), pixels = (\<lambda>_. white)((0, 0) := (1, 2, 3)), texts = []\<rparr>] 0 8 8 1000 1000 = (img', h')"
    "length [\<lparr>mode = ''RGB'', size_px = (8, 8), pixels = (\<lambda>_. white)((0, 0) := (1, 2, 3)), texts = []\<rparr>] \<le> img'" "take (length [\<lparr>mode = ''RGB'', size_px = (8, 8), pixels = (\<lambda>_. white)((0, 0) := (1, 2, 3)), texts = []\<rparr>]) h' = [\<lparr>mode = ''RGB'', size_px = (8, 8), pixels = (\<lambda>_. white)((0, 0) := (1, 2, 3)), texts = []\<rparr>]"
    "size_px (h' ! img') = (max (fst (size_px ([\<lparr>mode = ''RGB'', size_px = (8, 8), pixels = (\<lambda>_. white)((0, 0) := (1, 2, 3)), texts = []\<rparr>] ! 0))) (8 + 1000),
                            max (snd (size_px ([\<lparr>mode = ''RGB'', size_px = (8, 8), pixels = (\<lambda>_. white)((0, 0) := (1, 2, 3)), texts = []\<rparr>] ! 0))) (8 + 1000))"
    "\<forall>x y. x < fst (size_px ([\<lparr>mode = ''RGB'', size_px = (8, 8), pixels = (\<lambda>_. white)((0, 0) := (1, 2, 3)), texts = []\<rparr>] ! 0)) \<and> y < snd (size_px ([\<lparr>mode = ''RGB'', size_px = (8, 8), pixels = (\<lambda>_. white)((0, 0) := (1, 2, 3)), texts = []\<rparr>] ! 0)) \<longrightarrow>
                  pixels (h' ! img') (x, y) = pixels ([\<lparr>mode = ''RGB'', size_px = (8, 8), pixels = (\<lambda>_. white)((0, 0) := (1, 2, 3)), texts = []\<rparr>] ! 0) (x, y)"
    "\<forall>x y. \<not> (x < fst (size_px ([\<lparr>mode = ''RGB'', size_px = (8, 8), pixels = (\<lambda>_. white)((0, 0) := (1, 2, 3)), texts = []\<rparr>] ! 0)) \<and> y < snd (size_px ([\<lparr>mode = ''RGB'', size_px = (8, 8), pixels = (\<lambda>_. white)((0, 0) := (1, 2, 3)), texts = []\<rparr>] ! 0))) \<longrightarrow>
                  pixels (h' ! img') (x, y) = white"
    unfolding sz by auto
  from r(3) have "h' ! 0 = \<lparr>mode = ''RGB'', size_px = (8, 8), pixels = (\<lambda>_. white)((0, 0) := (1, 2, 3)), texts = []\<rparr>"
    by (metis len nth_take nth_Cons_0)
  moreover from r(5) [rule_format, of 0 0] have "pixels (h' ! img') (0, 0) = (1, 2, 3)"
    by simp
  moreover from r(6) [rule_format, of 8 0] have "pixels (h' ! img') (8, 0) = white"
    by simp
  moreover from r(4) have "size_px (h' ! img') = (1008, 1008)"
    unfolding sz by simp
  moreover from r(2) have "img' \<noteq> 0" by simp
  moreover have "MaybeEnlargeImage [\<lparr>mode = ''RGB'', size_px = (8, 8), pixels = (\<lambda>_. white)((0, 0) := (1, 2, 3)), texts = []\<rparr>] 0 8 8 0 0 = (0, [\<lparr>mode = ''RGB'', size_px = (8, 8), pixels = (\<lambda>_. white)((0, 0) := (1, 2, 3)), texts = []\<rparr>])"
    using MaybeEnlargeImage_keeps_content [OF len, of 8 0 8 0] unfolding sz by simp
  ultimately show ?thesis using r(1) len by simp
qed

subsection \<open>Construction of the reader\<close>

lemma py_int_two_hex_digits:
  "a < 16 \<Longrightarrow> b < 16 \<Longrightarrow> py_int [digit_char a, digit_char b] 16 = Inr (a * 16 + b)"
  by (simp add: py_int_def digit_value_digit_char)

lemma ConvertToHex_byte: "ConvertToHex [b] = Inr (unat b)"
proof -
  have "unat b mod 16 < 16" by simp
  then show ?thesis
    by (simp add: ConvertToHex_def hexlify_Cons hexlify_Nil py_int_two_hex_digits hi_nibble_less)
qed

lemma header_byte_nat:
  "header_byte data (int k) =
     (if k < length data then Inr (unat (data ! k)) else Inl IndexError)"
  by (simp add: header_byte_def py_getitem_def ConvertToHex_byte)

lemma int_digits_hexlify: "\<exists>v. int_digits 16 acc (hexlify bs) = Inr v"
proof (induction bs arbitrary: acc)
  case Nil
  then show ?case by (simp add: hexlify_Nil)
next
  case (Cons b bs)
  have "unat b mod 16 < 16" by simp
  then show ?case
    using Cons by (simp add: hexlify_Cons digit_value_digit_char hi_nibble_less)
qed

lemma ConvertToHex_nonempty:
  assumes "bs \<noteq> []"
  shows "\<exists>v. ConvertToHex bs = Inr v"
proof -
  have "length (hexlify bs) \<noteq> 0" using assms by (simp add: length_hexlify)
  then have "hexlify bs \<noteq> []" by auto
  then show ?thesis by (simp add: ConvertToHex_def py_int_def int_digits_hexlify)
qed

lemma init_short:
  assumes "length data < 11"
  shows "init nes data pals = Inl IndexError"
proof -
  have hb: "header_byte data 4 = (if 4 < length data then Inr (unat (data ! 4)) else Inl IndexError)"
    "header_byte data 5 = (if 5 < length data then Inr (unat (data ! 5)) else Inl IndexError)"
    "header_byte data 6 = (if 6 < length data then Inr (unat (data ! 6)) else Inl IndexError)"
    "header_byte data 7 = (if 7 < length data then Inr (unat (data ! 7)) else Inl IndexError)"
    "header_byte data 8 = (if 8 < length data then Inr (unat (data ! 8)) else Inl IndexError)"
    "header_byte data 9 = (if 9 < length data then Inr (unat (data ! 9)) else Inl IndexError)"
    "header_byte data 0xA = (if 10 < length data then Inr (unat (data ! 10)) else Inl IndexError)"
    using header_byte_nat [of data 4] header_byte_nat [of data 5] header_byte_nat [of data 6]
      header_byte_nat [of data 7] header_byte_nat [of data 8] header_byte_nat [of data 9]
      header_byte_nat [of data 10]
    by simp_all
  show ?thesis
    unfolding init_def hb using assms by simp
qed


lemma collect_error_kind_all:
  "\<forall>x\<in>set xs. \<forall>e. f x = Inl e \<longrightarrow> e = E \<Longrightarrow> collect f xs = Inl e \<Longrightarrow> e = E"
proof (induction xs)
  case Nil
  then show ?case by simp
next
  case (Cons x xs)
  show ?case
  proof (cases "f x")
    case (Inl e')
    with Cons.prems show ?thesis by simp
  next
    case (Inr y)
    with Cons.prems(2) have "collect f xs = Inl e"
      by (cases "collect f xs") simp_all
    with Cons.IH Cons.prems(1) show ?thesis by simp
  qed
qed

lemma collect_error_kind:
  assumes "\<And>x e. f x = Inl e \<Longrightarrow> e = E" and "collect f xs = Inl e"
  shows "e = E"
  using collect_error_kind_all [of xs f E e] assms by blast

lemma collect_fails:
  assumes "x \<in> set xs" and "f x = Inl e"
  shows "\<exists>e'. collect f xs = Inl e'"
  using assms
proof (induction xs)
  case Nil
  then show ?case by simp
next
  case (Cons y ys)
  show ?case
  proof (cases "f y")
    case (Inl e')
    then show ?thesis by simp
  next
    case (Inr v)
    show ?thesis
    proof (cases "x = y")
      case True
      with Inr Cons.prems show ?thesis by simp
    next
      case False
      with Cons obtain e' where "collect f ys = Inl e'" by auto
      with Inr show ?thesis by simp
    qed
  qed
qed

lemma py_int_error: "py_int s base = Inl e \<Longrightarrow> e = ValueError"
proof -
  have "int_digits base acc s = Inl e \<Longrightarrow> e = ValueError" for acc
    by (induction s arbitrary: acc) (auto split: option.splits if_splits)
  then show "py_int s base = Inl e \<Longrightarrow> e = ValueError"
    by (auto simp: py_int_def split: if_splits)
qed

lemma ebind_error: "ebind m f = Inl e \<Longrightarrow> m = Inl e \<or> (\<exists>x. m = Inr x \<and> f x = Inl e)"
  by (cases m) simp_all

lemma CompositeSpriteValue_error: "CompositeSpriteValue a b = Inl e \<Longrightarrow> e = ValueError"
proof (induction a b rule: CompositeSpriteValue.induct)
  case (1 n1 nibble_1 n2 nibble_2)
  from "1.prems" show ?case
    by (auto dest!: ebind_error dest: py_int_error "1.IH")
qed simp_all

lemma unpack_pair_error: "unpack_pair s = Inl e \<Longrightarrow> e = ValueError"
  by (auto simp: unpack_pair_def split: list.splits)

lemma sprite_row_error: "sprite_row a b = Inl e \<Longrightarrow> e = ValueError"
  unfolding sprite_row_def
  by (auto dest!: ebind_error dest: py_int_error CompositeSpriteValue_error unpack_pair_error
      simp del: CompositeSpriteValue.simps)

lemma LoadSprite_error: "LoadSprite sd = Inl e \<Longrightarrow> e = ValueError"
  unfolding LoadSprite_def Let_def
  by (erule collect_error_kind [rotated]) (rule sprite_row_error)


lemma py_slice_sixteen: "py_slice xs (int a) (int a + 16) = take 16 (drop a xs)"
proof -
  have "int a + 16 = int (a + 16)" by simp
  show ?thesis unfolding \<open>int a + 16 = int (a + 16)\<close> py_slice_nat by simp
qed

lemma sprite_row_empty:
  assumes "a = [] \<or> b = []"
  shows "sprite_row a b = Inl ValueError"
proof -
  have "\<exists>e. sprite_row a b = Inl e"
    using assms by (auto simp: sprite_row_def unpack_pair_def split: list.splits)
  then show ?thesis using sprite_row_error by blast
qed

lemma LoadSprite_short:
  assumes "length sprite_data < 16"
  shows "LoadSprite sprite_data = Inl ValueError"
proof -
  let ?f = "\<lambda>position. sprite_row
              (py_slice (hexlify (py_slice sprite_data 0 8)) (int position) (int position + 2))
              (py_slice (hexlify (py_slice sprite_data 8 16)) (int position) (int position + 2))"
  have sl: "py_slice sprite_data 0 8 = take 8 sprite_data"
    "py_slice sprite_data 8 16 = take 8 (drop 8 sprite_data)"
    using py_slice_nat [of sprite_data 0 8] py_slice_nat [of sprite_data 8 16] by simp_all
  have "drop 14 (hexlify (take 8 sprite_data)) = [] \<or>
        drop 14 (hexlify (take 8 (drop 8 sprite_data))) = []"
    using assms by (auto simp: length_hexlify)
  then have "?f 14 = Inl ValueError"
    unfolding sl py_slice_two by (intro sprite_row_empty) auto
  moreover have "14 \<in> set (py_range 0 16 2)"
    by (simp add: py_range_def image_iff)
  ultimately obtain e where "collect ?f (py_range 0 16 2) = Inl e"
    using collect_fails [of 14 "py_range 0 16 2" ?f] by blast
  then have "LoadSprite sprite_data = Inl e"
    by (simp add: LoadSprite_def)
  with LoadSprite_error show ?thesis by blast
qed

lemma py_range_16:
  assumes "16 dvd n"
  shows "py_range 0 n 16 = map (\<lambda>k. 16 * k) [0..<n div 16]"
proof -
  from assms have "(n + 16 - 1) div 16 = n div 16" by (auto elim: dvdE)
  then show ?thesis by (simp add: py_range_def mult.commute)
qed

lemma load_sprites_ok:
  assumes "16 dvd chr_len" and "chr_len \<le> length chr_dat"
  shows "load_sprites chr_dat chr_len =
     Inr (map (\<lambda>k. projr (LoadSprite (take 16 (drop (16 * k) chr_dat)))) [0..<chr_len div 16])"
proof -
  have step: "LoadSprite (py_slice chr_dat (int index) (int index + 16)) =
        Inr (projr (LoadSprite (take 16 (drop index chr_dat))))"
    if "index \<in> set (map (\<lambda>k. 16 * k) [0..<chr_len div 16])" for index
  proof -
    from that obtain k where k: "k < chr_len div 16" "index = 16 * k" by auto
    with assms have "index + 16 \<le> length chr_dat" by (auto elim: dvdE)
    then have "length (take 16 (drop index chr_dat)) = 16" by simp
    from LoadSprite_16 [OF this] show ?thesis
      unfolding py_slice_sixteen by simp
  qed
  have "load_sprites chr_dat chr_len =
      Inr (map (\<lambda>index. projr (LoadSprite (take 16 (drop index chr_dat))))
             (map (\<lambda>k. 16 * k) [0..<chr_len div 16]))"
    unfolding load_sprites_def py_range_16 [OF assms(1)]
    by (rule collect_Inr) (rule step)
  then show ?thesis by (simp add: comp_def)
qed

lemma load_sprites_short:
  assumes "16 dvd chr_len" and "length chr_dat < chr_len"
  shows "load_sprites chr_dat chr_len = Inl ValueError"
proof -
  let ?f = "\<lambda>index. LoadSprite (py_slice chr_dat (int index) (int index + 16))"
  from assms obtain m where m: "chr_len = 16 * m" "0 < m" by (auto elim: dvdE)
  then have last: "16 * (m - 1) \<in> set (py_range 0 chr_len 16)"
    unfolding py_range_16 [OF assms(1)] by (simp add: image_iff)
  have "length (take 16 (drop (16 * (m - 1)) chr_dat)) < 16"
    using assms(2) m by simp
  then have "?f (16 * (m - 1)) = Inl ValueError"
    unfolding py_slice_sixteen by (rule LoadSprite_short)
  with last obtain e where e: "collect ?f (py_range 0 chr_len 16) = Inl e"
    using collect_fails [of "16 * (m - 1)" "py_range 0 chr_len 16" ?f] by blast
  then have "e = ValueError"
    by (rule collect_error_kind [rotated]) (rule LoadSprite_error)
  with e show ?thesis by (simp add: load_sprites_def)
qed


lemma init_palettes_None: "init_palettes nes None self = Inr self"
  by (simp add: init_palettes_def)

lemma load_palette_frame:
  "load_palette nes entry self = (r, self') \<Longrightarrow> \<exists>p. self' = self\<lparr>palettes := p\<rparr>"
proof (cases "palette_entries nes (py_slice (file_data self) (snd entry) (snd entry + 4))")
  case (Inl e)
  assume "load_palette nes entry self = (r, self')"
  with Inl have "self' = self" by (auto simp: load_palette_def split: prod.splits)
  then have "self' = self\<lparr>palettes := palettes self\<rparr>" by simp
  then show ?thesis by blast
next
  case (Inr p)
  assume "load_palette nes entry self = (r, self')"
  with Inr show ?thesis by (auto simp: load_palette_def split: prod.splits)
qed

lemma LoadPalettes_frame:
  "LoadPalettes nes ps self = (r, self') \<Longrightarrow> \<exists>p. self' = self\<lparr>palettes := p\<rparr>"
  unfolding LoadPalettes_def
proof (induction ps arbitrary: self)
  case Nil
  then have "self' = self\<lparr>palettes := palettes self\<rparr>" by simp
  then show ?case by blast
next
  case (Cons entry ps)
  obtain r1 s1 where s1: "load_palette nes entry self = (r1, s1)" by (cases "load_palette nes entry self")
  from load_palette_frame [OF s1] obtain p1 where p1: "s1 = self\<lparr>palettes := p1\<rparr>" by blast
  show ?case
  proof (cases r1)
    case (Inl e)
    with s1 Cons.prems have "self' = s1" by simp
    with p1 show ?thesis by blast
  next
    case (Inr u)
    with s1 Cons.prems have "for_each (load_palette nes) ps s1 = (r, self')" by simp
    from Cons.IH [OF this] obtain p where "self' = s1\<lparr>palettes := p\<rparr>" by blast
    with p1 have "self' = self\<lparr>palettes := p\<rparr>" by simp
    then show ?thesis by blast
  qed
qed

lemma init_palettes_frame:
  "init_palettes nes pals self = Inr self' \<Longrightarrow> \<exists>p. self' = self\<lparr>palettes := p\<rparr>"
proof -
  assume a: "init_palettes nes pals self = Inr self'"
  have triv: "self = self\<lparr>palettes := palettes self\<rparr>" by simp
  show ?thesis
  proof (cases pals)
    case None
    with a have "self' = self" by (simp add: init_palettes_def)
    with triv show ?thesis by metis
  next
    case (Some ps)
    show ?thesis
    proof (cases "ps = []")
      case True
      with a Some have "self' = self" by (simp add: init_palettes_def)
      with triv show ?thesis by metis
    next
      case False
      obtain r s1 where s1: "LoadPalettes nes ps self = (r, s1)" by (cases "LoadPalettes nes ps self")
      with a Some False have "s1 = self'"
        by (cases r) (simp_all add: init_palettes_def)
      with LoadPalettes_frame [OF s1] show ?thesis by simp
    qed
  qed
qed

lemma init_long:
  assumes "11 \<le> length data"
  shows "\<exists>zf. init nes data pals =
     ebind (load_sprites
              (take (unat (data ! 5) * 8192) (drop (16 + unat (data ! 4) * 16384) data))
              (unat (data ! 5) * 8192))
       (\<lambda>tiles. init_palettes nes pals
           \<lparr>file_data = data, constant_hdr = py_slice data 0 4,
            prg_banks = unat (data ! 4), chr_banks = unat (data ! 5),
            flags_6 = unat (data ! 6), flags_7 = unat (data ! 7),
            prg_ram_size = unat (data ! 8), flags_9 = unat (data ! 9),
            flags_10 = unat (data ! 10), zero_fill = zf,
            prg_length = unat (data ! 4) * 16384, chr_length = unat (data ! 5) * 8192,
            prg_start = 16, chr_start = 16 + unat (data ! 4) * 16384,
            chr_data = take (unat (data ! 5) * 8192) (drop (16 + unat (data ! 4) * 16384) data),
            sprites = tiles, palettes = Map.empty\<rparr>)"
proof -
  have hb: "header_byte data 4 = Inr (unat (data ! 4))"
    "header_byte data 5 = Inr (unat (data ! 5))"
    "header_byte data 6 = Inr (unat (data ! 6))"
    "header_byte data 7 = Inr (unat (data ! 7))"
    "header_byte data 8 = Inr (unat (data ! 8))"
    "header_byte data 9 = Inr (unat (data ! 9))"
    "header_byte data 0xA = Inr (unat (data ! 10))"
    using header_byte_nat [of data 4] header_byte_nat [of data 5] header_byte_nat [of data 6]
      header_byte_nat [of data 7] header_byte_nat [of data 8] header_byte_nat [of data 9]
      header_byte_nat [of data 10] assms
    by simp_all
  have "py_slice data 0xA 0xF = take 5 (drop 10 data)"
    using py_slice_nat [of data 10 15] by simp
  moreover have "take 5 (drop 10 data) \<noteq> []" using assms by simp
  ultimately obtain zf where zf: "ConvertToHex (py_slice data 0xA 0xF) = Inr zf"
    using ConvertToHex_nonempty by metis
  have sl: "py_slice data (int (16 + unat (data ! 4) * 16384))
              (int (16 + unat (data ! 4) * 16384 + unat (data ! 5) * 8192)) =
            take (unat (data ! 5) * 8192) (drop (16 + unat (data ! 4) * 16384) data)"
    unfolding py_slice_nat by simp
  show ?thesis
    unfolding init_def hb zf ebind_simps Let_def sl by blast
qed

lemma init_cases:
  "(length data < 11 \<longrightarrow> init nes data pals = Inl IndexError) \<and>
   (11 \<le> length data \<and> 0 < unat (data ! 5) \<and>
    length data < 16 + unat (data ! 4) * 16384 + unat (data ! 5) * 8192 \<longrightarrow>
      init nes data pals = Inl ValueError) \<and>
   (11 \<le> length data \<and>
    (unat (data ! 5) = 0 \<or> 16 + unat (data ! 4) * 16384 + unat (data ! 5) * 8192 \<le> length data) \<longrightarrow>
      (\<exists>self. init nes data None = Inr self))"
proof (intro conjI impI)
  assume "length data < 11"
  then show "init nes data pals = Inl IndexError" by (rule init_short)
next
  assume a: "11 \<le> length data \<and> 0 < unat (data ! 5) \<and>
    length data < 16 + unat (data ! 4) * 16384 + unat (data ! 5) * 8192"
  have d: "16 dvd unat (data ! 5) * 8192" by simp
  have "length (take (unat (data ! 5) * 8192) (drop (16 + unat (data ! 4) * 16384) data))
          < unat (data ! 5) * 8192"
    using a by (auto simp: min_def)
  from load_sprites_short [OF d this] init_long [of data nes pals] a
  show "init nes data pals = Inl ValueError" by auto
next
  assume a: "11 \<le> length data \<and>
    (unat (data ! 5) = 0 \<or> 16 + unat (data ! 4) * 16384 + unat (data ! 5) * 8192 \<le> length data)"
  have d: "16 dvd unat (data ! 5) * 8192" by simp
  have "unat (data ! 5) * 8192
          \<le> length (take (unat (data ! 5) * 8192) (drop (16 + unat (data ! 4) * 16384) data))"
    using a by (auto simp: min_def)
  from load_sprites_ok [OF d this] init_long [of data nes None] a
  show "\<exists>self. init nes data None = Inr self" by (auto simp: init_palettes_None)
qed

lemma init_tiles:
  assumes "unat (data ! 5) = 0 \<or> 16 + unat (data ! 4) * 16384 + unat (data ! 5) * 8192 \<le> length data"
    and "11 \<le> length data"
  shows "\<exists>self. init nes data None = Inr self \<and>
     prg_length self = unat (data ! 4) * 16384 \<and>
     chr_length self = unat (data ! 5) * 8192 \<and>
     chr_start self = 16 + unat (data ! 4) * 16384 \<and>
     sprites self = map (\<lambda>k. projr (LoadSprite (take 16 (drop (16 + unat (data ! 4) * 16384 + 16 * k) data))))
                      [0..<unat (data ! 5) * 8192 div 16] \<and>
     (\<forall>pals self'. init nes data pals = Inr self' \<longrightarrow> sprites self' = sprites self)"
proof -
  let ?cl = "unat (data ! 5) * 8192"
  let ?cs = "16 + unat (data ! 4) * 16384"
  let ?cd = "take ?cl (drop ?cs data)"
  let ?tiles = "map (\<lambda>k. projr (LoadSprite (take 16 (drop (?cs + 16 * k) data)))) [0..<?cl div 16]"
  have d: "16 dvd ?cl" by simp
  have "?cl \<le> length ?cd" using assms by (auto simp: min_def)
  from load_sprites_ok [OF d this]
  have "load_sprites ?cd ?cl = Inr (map (\<lambda>k. projr (LoadSprite (take 16 (drop (16 * k) ?cd)))) [0..<?cl div 16])" .
  moreover have "take 16 (drop (16 * k) ?cd) = take 16 (drop (?cs + 16 * k) data)"
    if "k < ?cl div 16" for k
  proof -
    from that have "16 * k + 16 \<le> ?cl" by simp
    then have "min 16 (?cl - 16 * k) = 16" by simp
    then show ?thesis by (simp add: drop_take add.commute)
  qed
  ultimately have ls: "load_sprites ?cd ?cl = Inr ?tiles" by simp
  have r: "\<exists>zf. init nes data pals =
      init_palettes nes pals
           \<lparr>file_data = data, constant_hdr = py_slice data 0 4,
            prg_banks = unat (data ! 4), chr_banks = unat (data ! 5),
            flags_6 = unat (data ! 6), flags_7 = unat (data ! 7),
            prg_ram_size = unat (data ! 8), flags_9 = unat (data ! 9),
            flags_10 = unat (data ! 10), zero_fill = zf,
            prg_length = unat (data ! 4) * 16384, chr_length = ?cl,
            prg_start = 16, chr_start = ?cs,
            chr_data = ?cd, sprites = ?tiles, palettes = Map.empty\<rparr>" for pals
    using init_long [OF assms(2), of nes pals] unfolding ls ebind_simps .
  from r [of None] obtain self where self: "init nes data None = Inr self"
    "prg_length self = unat (data ! 4) * 16384" "chr_length self = ?cl" "chr_start self = ?cs"
    "sprites self = ?tiles"
    by (auto simp: init_palettes_None)
  have "sprites self' = sprites self" if "init nes data pals = Inr self'" for pals self'
  proof -
    from r [of pals] that obtain s0 where s0: "init_palettes nes pals s0 = Inr self'"
      "sprites s0 = ?tiles" by auto
    from init_palettes_frame [OF s0(1)] obtain p where "self' = s0\<lparr>palettes := p\<rparr>" by blast
    with s0(2) self(5) show ?thesis by simp
  qed
  with self show ?thesis by blast
qed

text \<open>
  Claim C3. For every file whose character-data region lies inside it, that is
  chrStart + chrLength \<open>\<le>\<close> the length of the file with chrLength = chrBanks * 8192 and
  chrStart = 16 + prgBanks * 16384 (the bank counts are bytes 4 and 5 of the file),
  construction succeeds, chrLength is a multiple of 16, and the tile table holds exactly
  chrLength / 16 tiles in byte-offset order: tile \<open>k\<close> is the decoding of the 16 bytes at
  offset chrStart + 16 k. Palettes given to the constructor do not change the tile table.
\<close>

theorem init_decodes_every_tile:
  assumes "16 + unat (data ! 4) * 16384 + unat (data ! 5) * 8192 \<le> length data"
  shows "\<exists>self. init nes data None = Inr self \<and>
     prg_length self = unat (data ! 4) * 16384 \<and>
     chr_length self = unat (data ! 5) * 8192 \<and>
     chr_start self = 16 + prg_length self \<and>
     16 dvd chr_length self \<and>
     length (sprites self) = chr_length self div 16 \<and>
     (\<forall>k<chr_length self div 16.
        LoadSprite (take 16 (drop (chr_start self + 16 * k) data)) = Inr (sprites self ! k)) \<and>
     (\<forall>pals self'. init nes data pals = Inr self' \<longrightarrow> sprites self' = sprites self)"
proof -
  from assms have len: "11 \<le> length data" by simp
  from init_tiles [OF disjI2 [OF assms] len, of nes]
  obtain self where self: "init nes data None = Inr self"
    "prg_length self = unat (data ! 4) * 16384" "chr_length self = unat (data ! 5) * 8192"
    "chr_start self = 16 + unat (data ! 4) * 16384"
    "sprites self = map (\<lambda>k. projr (LoadSprite (take 16 (drop (16 + unat (data ! 4) * 16384 + 16 * k) data))))
                      [0..<unat (data ! 5) * 8192 div 16]"
    "\<forall>pals self'. init nes data pals = Inr self' \<longrightarrow> sprites self' = sprites self"
    by blast
  have tile: "LoadSprite (take 16 (drop (chr_start self + 16 * k) data)) = Inr (sprites self ! k)"
    if "k < chr_length self div 16" for k
  proof -
    from that self(3) have "16 * k + 16 \<le> unat (data ! 5) * 8192" by simp
    with assms have "length (take 16 (drop (chr_start self + 16 * k) data)) = 16"
      unfolding self(4) by simp
    from LoadSprite_16 [OF this] that show ?thesis
      unfolding self(5) self(4) self(3) by simp
  qed
  have d: "16 dvd chr_length self" unfolding self(3) by simp
  have l: "length (sprites self) = chr_length self div 16" unfolding self(5) self(3) by simp
  have cs: "chr_start self = 16 + prg_length self" unfolding self(4) self(2) ..
  show ?thesis
    by (intro exI [of _ self] conjI allI impI self(1) self(2) self(3) cs d l tile
        self(6) [rule_format])
qed

theorem init_decodes_every_tile_witness:
  "16 + unat (([0x4e, 0x45, 0x53, 0x1a, 0, 1, 0, 0, 0, 0, 0, 0, 0, 0, 0, 0] @ replicate 8192 (0::byte)) ! 4) * 16384 + unat (([0x4e, 0x45, 0x53, 0x1a, 0, 1, 0, 0, 0, 0, 0, 0, 0, 0, 0, 0] @ replicate 8192 (0::byte)) ! 5) * 8192 \<le> length ([0x4e, 0x45, 0x53, 0x1a, 0, 1, 0, 0, 0, 0, 0, 0, 0, 0, 0, 0] @ replicate 8192 (0::byte)) \<and>
   (\<exists>self. init Map.empty ([0x4e, 0x45, 0x53, 0x1a, 0, 1, 0, 0, 0, 0, 0, 0, 0, 0, 0, 0] @ replicate 8192 (0::byte)) None = Inr self \<and> chr_start self = 16 \<and>
      length (sprites self) = 512 \<and> sprites self ! 0 = replicate 8 ''00000000'')"
proof -
  let ?D = "([0x4e, 0x45, 0x53, 0x1a, 0, 1, 0, 0, 0, 0, 0, 0, 0, 0, 0, 0] @ replicate 8192 (0::byte))"
  have d4: "?D ! 4 = 0" and d5: "?D ! 5 = 1" and len: "length ?D = 8208"
    by (simp_all add: nth_append)
  have h: "16 + unat (?D ! 4) * 16384 + unat (?D ! 5) * 8192 \<le> length ?D"
    unfolding d4 d5 len by simp
  from init_decodes_every_tile [OF h, of Map.empty]
  obtain self where self: "init Map.empty ?D None = Inr self"
    "prg_length self = unat (?D ! 4) * 16384" "chr_length self = unat (?D ! 5) * 8192"
    "chr_start self = 16 + prg_length self"
    "length (sprites self) = chr_length self div 16"
    "\<forall>k<chr_length self div 16.
        LoadSprite (take 16 (drop (chr_start self + 16 * k) ?D)) = Inr (sprites self ! k)"
    by blast
  have cs: "chr_start self = 16" and cl: "chr_length self = 8192"
    using self(2,3,4) unfolding d4 d5 by simp_all
  have "take 16 (drop 16 ?D) = replicate 16 0" by simp
  with self(6) [rule_format, of 0] have "LoadSprite (replicate 16 0) = Inr (sprites self ! 0)"
    unfolding cs cl by simp
  then have "sprites self ! 0 = replicate 8 ''00000000''"
    unfolding LoadSprite_zero by simp
  moreover have "length (sprites self) = 512" using self(5) cl by simp
  ultimately show ?thesis using h self(1) cs by blast
qed

text \<open>
  Claim C4, as amended. Construction raises IndexError whenever the file has fewer than 11
  bytes (the header is read up to byte 10 only). With at least 11 bytes it raises
  ValueError, from the decoding of a tile, whenever the character-bank count is not zero
  and the character-data region chrStart + chrLength exceeds the length of the file. For
  every other file, among them files of 11 to 15 bytes and files with a truncated program
  region when the character-bank count is zero, no validation is performed and
  construction without palettes succeeds.
\<close>

theorem init_failures:
  "(length data < 11 \<longrightarrow> init nes data pals = Inl IndexError) \<and>
   (11 \<le> length data \<and> 0 < unat (data ! 5) \<and>
    length data < 16 + unat (data ! 4) * 16384 + unat (data ! 5) * 8192 \<longrightarrow>
      init nes data pals = Inl ValueError) \<and>
   (11 \<le> length data \<and>
    (unat (data ! 5) = 0 \<or> 16 + unat (data ! 4) * 16384 + unat (data ! 5) * 8192 \<le> length data) \<longrightarrow>
      (\<exists>self. init nes data None = Inr self))"
  by (rule init_cases)

theorem init_failures_witness:
  "length [0x4e, 0x45, 0x53, 0x1a :: byte] < 11 \<and>
   init Map.empty [0x4e, 0x45, 0x53, 0x1a] None = Inl IndexError \<and>
   11 \<le> length ([0x4e, 0x45, 0x53, 0x1a, 0, 1, 0, 0, 0, 0, 0, 0, 0, 0, 0, 0] @ replicate 100 (0::byte)) \<and>
   init Map.empty ([0x4e, 0x45, 0x53, 0x1a, 0, 1, 0, 0, 0, 0, 0, 0, 0, 0, 0, 0] @ replicate 100 0) None
     = Inl ValueError \<and>
   (\<exists>self. init Map.empty [0x4e, 0x45, 0x53, 0x1a, 0, 0, 0, 0, 0, 0, 0, 0, 0, 0, 0, 0] None = Inr self)"
proof -
  let ?a = "[0x4e, 0x45, 0x53, 0x1a :: byte]"
  let ?b = "[0x4e, 0x45, 0x53, 0x1a, 0, 1, 0, 0, 0, 0, 0, 0, 0, 0, 0, 0] @ replicate 100 (0::byte)"
  let ?c = "[0x4e, 0x45, 0x53, 0x1a, 0, 0, 0, 0, 0, 0, 0, 0, 0, 0, 0, 0 :: byte]"
  have a: "length ?a < 11" by simp
  have b4: "?b ! 4 = 0" and b5: "?b ! 5 = 1" and bl: "length ?b = 116"
    by (simp_all add: nth_append)
  have b: "11 \<le> length ?b \<and> 0 < unat (?b ! 5) \<and>
           length ?b < 16 + unat (?b ! 4) * 16384 + unat (?b ! 5) * 8192"
    unfolding b4 b5 bl by simp
  have c: "11 \<le> length ?c \<and>
    (unat (?c ! 5) = 0 \<or> 16 + unat (?c ! 4) * 16384 + unat (?c ! 5) * 8192 \<le> length ?c)"
    by simp
  from init_failures [of ?a Map.empty None] a
  have "init Map.empty ?a None = Inl IndexError" by blast
  moreover from init_failures [of ?b Map.empty None] b
  have "init Map.empty ?b None = Inl ValueError" by blast
  moreover from init_failures [of ?c Map.empty None] c
  have "\<exists>self. init Map.empty ?c None = Inr self" by blast
  ultimately show ?thesis using a b by blast
qed

text \<open>
  Claim C4 as stated fails: a file of 11 bytes with one program bank and no character
  bank has fewer than 16 bytes, and its computed character-data region (from offset 16400)
  lies beyond its end, yet construction succeeds.
\<close>

theorem init_truncated_counterexample:
  "length [0x4e, 0x45, 0x53, 0x1a, 1, 0, 0, 0, 0, 0, 0 :: byte] < 16 \<and>
   length [0x4e, 0x45, 0x53, 0x1a, 1, 0, 0, 0, 0, 0, 0 :: byte] < 16 + unat ([0x4e, 0x45, 0x53, 0x1a, 1, 0, 0, 0, 0, 0, 0 :: byte] ! 4) * 16384 + unat ([0x4e, 0x45, 0x53, 0x1a, 1, 0, 0, 0, 0, 0, 0 :: byte] ! 5) * 8192 \<and>
   \<not> isl (init Map.empty [0x4e, 0x45, 0x53, 0x1a, 1, 0, 0, 0, 0, 0, 0 :: byte] None)"
proof -
  have "\<exists>self. init Map.empty [0x4e, 0x45, 0x53, 0x1a, 1, 0, 0, 0, 0, 0, 0 :: byte] None = Inr self"
    using init_cases [of "[0x4e, 0x45, 0x53, 0x1a, 1, 0, 0, 0, 0, 0, 0 :: byte]" Map.empty None] by simp
  then obtain self where
    "init Map.empty [0x4e, 0x45, 0x53, 0x1a, 1, 0, 0, 0, 0, 0, 0 :: byte] None = Inr self" ..
  then have "\<not> isl (init Map.empty [0x4e, 0x45, 0x53, 0x1a, 1, 0, 0, 0, 0, 0, 0 :: byte] None)"
    by simp
  moreover have "length [0x4e, 0x45, 0x53, 0x1a, 1, 0, 0, 0, 0, 0, 0 :: byte] < 16" by simp
  moreover have "length [0x4e, 0x45, 0x53, 0x1a, 1, 0, 0, 0, 0, 0, 0 :: byte] < 16 + unat ([0x4e, 0x45, 0x53, 0x1a, 1, 0, 0, 0, 0, 0, 0 :: byte] ! 4) * 16384 + unat ([0x4e, 0x45, 0x53, 0x1a, 1, 0, 0, 0, 0, 0, 0 :: byte] ! 5) * 8192"
    by simp
  ultimately show ?thesis by blast
qed

subsection \<open>Drawing one tile\<close>

lemma putpixel_inside:
  assumes "img < length h" "x < fst (size_px (h ! img))" "y < snd (size_px (h ! img))"
  shows "putpixel img (x, y) colour h =
           (Inr (), h[img := (h ! img)\<lparr>pixels := (pixels (h ! img))((x, y) := colour)\<rparr>])"
  using assms by (simp add: putpixel_def)

lemma upt_add_Suc: "[n..<n + Suc k] = n # [Suc n..<Suc n + k]"
  by (simp add: upt_conv_Cons del: upt_Suc)

lemma draw_pixels_loop:
  assumes "img < length h"
    and "X + n + length row \<le> fst (size_px (h ! img))"
    and "Y < snd (size_px (h ! img))"
    and "\<forall>c\<in>set row. pal [c] \<noteq> None"
  shows "for_each
           (\<lambda>(sprite_col_index, value) h.
              case pal [value] of
                None \<Rightarrow> (Inl KeyError, h)
              | Some colour \<Rightarrow> putpixel img (X + sprite_col_index, Y) colour h)
           (zip [n..<n + length row] row) h =
         (Inr (), h[img := (h ! img)\<lparr>pixels :=
            (\<lambda>p. if snd p = Y \<and> X + n \<le> fst p \<and> fst p < X + n + length row
                  then the (pal [row ! (fst p - X - n)]) else pixels (h ! img) p)\<rparr>])"
  using assms
proof (induction row arbitrary: n h)
  case Nil
  have "(\<lambda>p. if snd p = Y \<and> X + n \<le> fst p \<and> fst p < X + n + length ([] :: string)
                  then the (pal [[] ! (fst p - X - n)]) else pixels (h ! img) p) = pixels (h ! img)"
    by (rule ext) auto
  then show ?case by simp
next
  case (Cons v vs)
  from Cons.prems(4) obtain col where col: "pal [v] = Some col" by auto
  define body where "body =
     (\<lambda>(sprite_col_index, value) h.
              case pal [value] of
                None \<Rightarrow> (Inl KeyError, h)
              | Some colour \<Rightarrow> putpixel img (X + sprite_col_index, Y) colour h)"
  define h1 where "h1 = h[img := (h ! img)\<lparr>pixels := (pixels (h ! img))((X + n, Y) := col)\<rparr>]"
  define F1 where "F1 =
     (\<lambda>p. if snd p = Y \<and> X + Suc n \<le> fst p \<and> fst p < X + Suc n + length vs
           then the (pal [vs ! (fst p - X - Suc n)])
           else ((pixels (h ! img))((X + n, Y) := col)) p)"
  define F2 where "F2 =
     (\<lambda>p. if snd p = Y \<and> X + n \<le> fst p \<and> fst p < X + n + length (v # vs)
           then the (pal [(v # vs) ! (fst p - X - n)]) else pixels (h ! img) p)"
  have z: "zip [n..<n + length (v # vs)] (v # vs) = (n, v) # zip [Suc n..<Suc n + length vs] vs"
    using upt_add_Suc [of n "length vs"] by simp
  have pp: "putpixel img (X + n, Y) col h = (Inr (), h1)"
    unfolding h1_def using Cons.prems by (intro putpixel_inside) simp_all
  have step: "for_each body ((n, v) # zs) h = for_each body zs h1" for zs
    unfolding body_def by (simp add: col pp)
  have h1img: "h1 ! img = (h ! img)\<lparr>pixels := (pixels (h ! img))((X + n, Y) := col)\<rparr>"
    "length h1 = length h"
    unfolding h1_def using Cons.prems(1) by simp_all
  have "for_each body (zip [Suc n..<Suc n + length vs] vs) h1 =
         (Inr (), h1[img := (h1 ! img)\<lparr>pixels :=
            (\<lambda>p. if snd p = Y \<and> X + Suc n \<le> fst p \<and> fst p < X + Suc n + length vs
                  then the (pal [vs ! (fst p - X - Suc n)]) else pixels (h1 ! img) p)\<rparr>])"
    unfolding body_def
    using Cons.prems by (intro Cons.IH) (simp_all add: h1img)
  also have "h1[img := (h1 ! img)\<lparr>pixels :=
            (\<lambda>p. if snd p = Y \<and> X + Suc n \<le> fst p \<and> fst p < X + Suc n + length vs
                  then the (pal [vs ! (fst p - X - Suc n)]) else pixels (h1 ! img) p)\<rparr>] =
        h[img := (h ! img)\<lparr>pixels := F1\<rparr>]"
    unfolding h1img(1) F1_def by (simp add: h1_def cong: if_cong)
  finally have ih: "for_each body (zip [Suc n..<Suc n + length vs] vs) h1 =
      (Inr (), h[img := (h ! img)\<lparr>pixels := F1\<rparr>])" .
  have eq: "F1 = F2"
  proof (rule ext)
    fix p :: "nat \<times> nat"
    obtain a b where p: "p = (a, b)" by (cases p)
    show "F1 p = F2 p"
    proof (cases "a = X + n")
      case True
      then show ?thesis using col by (simp add: p F1_def F2_def)
    next
      case False
      then have "a - X - n = Suc (a - X - Suc n)" if "X + n \<le> a" using that by simp
      with False show ?thesis by (auto simp: p F1_def F2_def)
    qed
  qed
  have "for_each body (zip [n..<n + length (v # vs)] (v # vs)) h =
      (Inr (), h[img := (h ! img)\<lparr>pixels := F2\<rparr>])"
    unfolding z step ih eq ..
  then show ?case unfolding body_def F2_def .
qed


lemma draw_pixels_ok:
  assumes "img < length h"
    and "x_val + bc * 8 + length row \<le> fst (size_px (h ! img))"
    and "y_val + ri + br * 8 < snd (size_px (h ! img))"
    and "\<forall>c\<in>set row. pal [c] \<noteq> None"
  shows "draw_pixels img pal x_val y_val br bc (ri, row) h =
         (Inr (), h[img := (h ! img)\<lparr>pixels :=
            (\<lambda>p. if snd p = y_val + ri + br * 8 \<and> x_val + bc * 8 \<le> fst p \<and>
                     fst p < x_val + bc * 8 + length row
                  then the (pal [row ! (fst p - (x_val + bc * 8))]) else pixels (h ! img) p)\<rparr>])"
proof -
  have body: "(\<lambda>(sprite_col_index, value) h.
              case pal [value] of
                None \<Rightarrow> (Inl KeyError, h)
              | Some colour \<Rightarrow> putpixel img (x_val + sprite_col_index + bc * 8, y_val + ri + br * 8) colour h) =
        (\<lambda>(sprite_col_index, value) h.
              case pal [value] of
                None \<Rightarrow> (Inl KeyError, h)
              | Some colour \<Rightarrow> putpixel img (x_val + bc * 8 + sprite_col_index, y_val + ri + br * 8) colour h)"
    by (auto simp: fun_eq_iff ac_simps split: option.splits)
  have "draw_pixels img pal x_val y_val br bc (ri, row) h =
      for_each (\<lambda>(sprite_col_index, value) h.
              case pal [value] of
                None \<Rightarrow> (Inl KeyError, h)
              | Some colour \<Rightarrow> putpixel img (x_val + bc * 8 + sprite_col_index, y_val + ri + br * 8) colour h)
        (zip [0..<0 + length row] row) h"
    unfolding draw_pixels_def py_enumerate_def by (simp add: Let_def body)
  also have "\<dots> = (Inr (), h[img := (h ! img)\<lparr>pixels :=
            (\<lambda>p. if snd p = y_val + ri + br * 8 \<and> x_val + bc * 8 + 0 \<le> fst p \<and>
                     fst p < x_val + bc * 8 + 0 + length row
                  then the (pal [row ! (fst p - (x_val + bc * 8) - 0)]) else pixels (h ! img) p)\<rparr>])"
    using assms by (intro draw_pixels_loop) simp_all
  finally show ?thesis by (simp cong: if_cong)
qed

lemma draw_rows_loop:
  assumes "img < length h"
    and "x_val + bc * 8 + w \<le> fst (size_px (h ! img))"
    and "y_val + br * 8 + m + length rows \<le> snd (size_px (h ! img))"
    and "\<forall>row\<in>set rows. length row = w \<and> (\<forall>c\<in>set row. pal [c] \<noteq> None)"
  shows "for_each (draw_pixels img pal x_val y_val br bc) (zip [m..<m + length rows] rows) h =
         (Inr (), h[img := (h ! img)\<lparr>pixels :=
            (\<lambda>p. if x_val + bc * 8 \<le> fst p \<and> fst p < x_val + bc * 8 + w \<and>
                     y_val + br * 8 + m \<le> snd p \<and> snd p < y_val + br * 8 + m + length rows
                  then the (pal [rows ! (snd p - (y_val + br * 8) - m) ! (fst p - (x_val + bc * 8))])
                  else pixels (h ! img) p)\<rparr>])"
  using assms
proof (induction rows arbitrary: m h)
  case Nil
  have "(\<lambda>p. if x_val + bc * 8 \<le> fst p \<and> fst p < x_val + bc * 8 + w \<and>
                     y_val + br * 8 + m \<le> snd p \<and> snd p < y_val + br * 8 + m + length ([] :: string list)
                  then the (pal [[] ! (snd p - (y_val + br * 8) - m) ! (fst p - (x_val + bc * 8))])
                  else pixels (h ! img) p) = pixels (h ! img)"
    by (rule ext) auto
  then show ?case by simp
next
  case (Cons r rs)
  define G where "G =
     (\<lambda>p. if snd p = y_val + m + br * 8 \<and> x_val + bc * 8 \<le> fst p \<and>
                     fst p < x_val + bc * 8 + length r
                  then the (pal [r ! (fst p - (x_val + bc * 8))]) else pixels (h ! img) p)"
  define h1 where "h1 = h[img := (h ! img)\<lparr>pixels := G\<rparr>]"
  define F1 where "F1 =
     (\<lambda>p. if x_val + bc * 8 \<le> fst p \<and> fst p < x_val + bc * 8 + w \<and>
                     y_val + br * 8 + Suc m \<le> snd p \<and> snd p < y_val + br * 8 + Suc m + length rs
                  then the (pal [rs ! (snd p - (y_val + br * 8) - Suc m) ! (fst p - (x_val + bc * 8))])
                  else G p)"
  define F2 where "F2 =
     (\<lambda>p. if x_val + bc * 8 \<le> fst p \<and> fst p < x_val + bc * 8 + w \<and>
                     y_val + br * 8 + m \<le> snd p \<and> snd p < y_val + br * 8 + m + length (r # rs)
                  then the (pal [(r # rs) ! (snd p - (y_val + br * 8) - m) ! (fst p - (x_val + bc * 8))])
                  else pixels (h ! img) p)"
  have lr: "length r = w" using Cons.prems(4) by simp
  have z: "zip [m..<m + length (r # rs)] (r # rs) = (m, r) # zip [Suc m..<Suc m + length rs] rs"
    using upt_add_Suc [of m "length rs"] by simp
  have first: "draw_pixels img pal x_val y_val br bc (m, r) h = (Inr (), h1)"
    unfolding h1_def G_def using Cons.prems by (intro draw_pixels_ok) (simp_all add: lr)
  have step: "for_each (draw_pixels img pal x_val y_val br bc) ((m, r) # zs) h =
              for_each (draw_pixels img pal x_val y_val br bc) zs h1" for zs
    by (simp add: first)
  have h1img: "h1 ! img = (h ! img)\<lparr>pixels := G\<rparr>"
    unfolding h1_def using Cons.prems(1) by simp
  have "for_each (draw_pixels img pal x_val y_val br bc) (zip [Suc m..<Suc m + length rs] rs) h1 =
         (Inr (), h1[img := (h1 ! img)\<lparr>pixels :=
            (\<lambda>p. if x_val + bc * 8 \<le> fst p \<and> fst p < x_val + bc * 8 + w \<and>
                     y_val + br * 8 + Suc m \<le> snd p \<and> snd p < y_val + br * 8 + Suc m + length rs
                  then the (pal [rs ! (snd p - (y_val + br * 8) - Suc m) ! (fst p - (x_val + bc * 8))])
                  else pixels (h1 ! img) p)\<rparr>])"
    using Cons.prems by (intro Cons.IH) (simp_all add: h1img h1_def)
  also have "h1[img := (h1 ! img)\<lparr>pixels :=
            (\<lambda>p. if x_val + bc * 8 \<le> fst p \<and> fst p < x_val + bc * 8 + w \<and>
                     y_val + br * 8 + Suc m \<le> snd p \<and> snd p < y_val + br * 8 + Suc m + length rs
                  then the (pal [rs ! (snd p - (y_val + br * 8) - Suc m) ! (fst p - (x_val + bc * 8))])
                  else pixels (h1 ! img) p)\<rparr>] =
        h[img := (h ! img)\<lparr>pixels := F1\<rparr>]"
    unfolding h1img F1_def by (simp add: h1_def cong: if_cong)
  finally have ih: "for_each (draw_pixels img pal x_val y_val br bc)
      (zip [Suc m..<Suc m + length rs] rs) h1 = (Inr (), h[img := (h ! img)\<lparr>pixels := F1\<rparr>])" .
  have eq: "F1 = F2"
  proof (rule ext)
    fix p :: "nat \<times> nat"
    obtain a b where p: "p = (a, b)" by (cases p)
    show "F1 p = F2 p"
    proof (cases "b = y_val + br * 8 + m")
      case True
      then show ?thesis by (simp add: p F1_def F2_def G_def lr add.commute add.left_commute)
    next
      case False
      then have "b - (y_val + br * 8) - m = Suc (b - (y_val + br * 8) - Suc m)"
        if "y_val + br * 8 + m \<le> b" using that by simp
      with False show ?thesis by (auto simp: p F1_def F2_def G_def)
    qed
  qed
  have "for_each (draw_pixels img pal x_val y_val br bc) (zip [m..<m + length (r # rs)] (r # rs)) h =
      (Inr (), h[img := (h ! img)\<lparr>pixels := F2\<rparr>])"
    unfolding z step ih eq ..
  then show ?case unfolding F2_def .
qed

subsection \<open>Palette resolution at any offset\<close>

lemma py_slice_four_inside:
  assumes "(0 \<le> a \<and> a + 4 \<le> int (length xs)) \<or> (a + 4 < 0 \<and> - int (length xs) \<le> a)"
  shows "py_slice xs a (a + 4) =
     [xs ! nat (if a < 0 then int (length xs) + a else a),
      xs ! (nat (if a < 0 then int (length xs) + a else a) + 1),
      xs ! (nat (if a < 0 then int (length xs) + a else a) + 2),
      xs ! (nat (if a < 0 then int (length xs) + a else a) + 3)]"
proof (cases "0 \<le> a")
  case True
  with assms have "nat a + 4 \<le> length xs" by linarith
  with True show ?thesis by (simp add: py_slice_from_nat take4_drop)
next
  case False
  with assms have a: "a + 4 < 0" "- int (length xs) \<le> a" by auto
  define s where "s = nat (int (length xs) + a)"
  have s: "s + 4 \<le> length xs" "int s = int (length xs) + a" using a by (auto simp: s_def)
  have "clamp_index (length xs) a = s" "clamp_index (length xs) (a + 4) = s + 4"
    using a by (auto simp: clamp_index_def s_def)
  then have "py_slice xs a (a + 4) = take 4 (drop s xs)"
    by (simp add: py_slice_def)
  with s(1) False show ?thesis by (simp add: take4_drop s_def)
qed

lemma py_slice_four_outside:
  assumes "\<not> ((0 \<le> a \<and> a + 4 \<le> int (length xs)) \<or> (a + 4 < 0 \<and> - int (length xs) \<le> a))"
  shows "length (py_slice xs a (a + 4)) < 4"
  using assms by (auto simp: py_slice_def clamp_index_def Let_def min_def)

lemma set_py_slice: "set (py_slice xs i j) \<subseteq> set xs"
proof -
  have "set (take n (drop m xs)) \<subseteq> set xs" for n m
    by (meson set_take_subset set_drop_subset subset_trans)
  then show ?thesis by (simp add: py_slice_def Let_def)
qed


lemma load_palette_outside:
  assumes "\<not> ((0 \<le> address \<and> address + 4 \<le> int (length (file_data self))) \<or>
            (address + 4 < 0 \<and> - int (length (file_data self)) \<le> address))"
  shows "snd (load_palette nes (palette_name, address) self) = self \<and>
         (fst (load_palette nes (palette_name, address) self) = Inl IndexError \<or>
          fst (load_palette nes (palette_name, address) self) = Inl KeyError) \<and>
         ((\<forall>b\<in>set (file_data self). nes b \<noteq> None) \<longrightarrow>
          fst (load_palette nes (palette_name, address) self) = Inl IndexError)"
proof -
  define pb where "pb = py_slice (file_data self) address (address + 4)"
  have short: "length pb < 4" unfolding pb_def using assms by (rule py_slice_four_outside)
  have sub: "set pb \<subseteq> set (file_data self)" unfolding pb_def by (rule set_py_slice)
  have lp: "load_palette nes (palette_name, address) self =
      (case palette_entries nes pb of
         Inl e \<Rightarrow> (Inl e, self)
       | Inr p \<Rightarrow> (Inr (), self\<lparr>palettes := (palettes self)(palette_name \<mapsto> p)\<rparr>))"
    by (simp add: load_palette_def pb_def)
  from palette_entries_short [OF short, of nes] sub show ?thesis
    unfolding lp by auto
qed

lemma load_palette_inside:
  assumes "((0 \<le> address \<and> address + 4 \<le> int (length (file_data self))) \<or>
            (address + 4 < 0 \<and> - int (length (file_data self)) \<le> address))"
  shows "load_palette nes (palette_name, address) self =
     (case palette_entries nes
             [file_data self ! nat (if address < 0 then int (length (file_data self)) + address else address), file_data self ! (nat (if address < 0 then int (length (file_data self)) + address else address) + 1),
              file_data self ! (nat (if address < 0 then int (length (file_data self)) + address else address) + 2), file_data self ! (nat (if address < 0 then int (length (file_data self)) + address else address) + 3)] of
        Inl e \<Rightarrow> (Inl e, self)
      | Inr p \<Rightarrow> (Inr (), self\<lparr>palettes := (palettes self)(palette_name \<mapsto> p)\<rparr>))"
  unfolding load_palette_def using py_slice_four_inside [OF assms] by simp

lemma init_file_data:
  assumes "init nes data pals = Inr self"
  shows "file_data self = data"
proof -
  have len: "11 \<le> length data"
  proof (rule ccontr)
    assume "\<not> 11 \<le> length data"
    then have "length data < 11" by simp
    from init_short [OF this, of nes pals] assms show False by simp
  qed
  from init_long [OF len, of nes pals] obtain zf where
    eq: "init nes data pals =
     ebind (load_sprites
              (take (unat (data ! 5) * 8192) (drop (16 + unat (data ! 4) * 16384) data))
              (unat (data ! 5) * 8192))
       (\<lambda>tiles. init_palettes nes pals
           \<lparr>file_data = data, constant_hdr = py_slice data 0 4,
            prg_banks = unat (data ! 4), chr_banks = unat (data ! 5),
            flags_6 = unat (data ! 6), flags_7 = unat (data ! 7),
            prg_ram_size = unat (data ! 8), flags_9 = unat (data ! 9),
            flags_10 = unat (data ! 10), zero_fill = zf,
            prg_length = unat (data ! 4) * 16384, chr_length = unat (data ! 5) * 8192,
            prg_start = 16, chr_start = 16 + unat (data ! 4) * 16384,
            chr_data = take (unat (data ! 5) * 8192) (drop (16 + unat (data ! 4) * 16384) data),
            sprites = tiles, palettes = Map.empty\<rparr>)"
    by blast
  obtain s0 where s0: "init_palettes nes pals s0 = Inr self" "file_data s0 = data"
  proof (cases "load_sprites
              (take (unat (data ! 5) * 8192) (drop (16 + unat (data ! 4) * 16384) data))
              (unat (data ! 5) * 8192)")
    case (Inl e)
    with eq assms show ?thesis by simp
  next
    case (Inr tiles)
    with eq assms that show ?thesis by simp
  qed
  from init_palettes_frame [OF s0(1)] obtain p where "self = s0\<lparr>palettes := p\<rparr>" by blast
  with s0(2) show ?thesis by simp
qed

text \<open>
  Claim C6, as amended. Palette resolution reads the slice \<open>[offset : offset + 4]\<close> of the
  file with Python's rules, so a negative offset counts from the end. The slice holds
  four bytes exactly when 0 \<open>\<le>\<close> offset and offset + 4 \<open>\<le>\<close> length, or when
  offset + 4 < 0 and -length \<open>\<le>\<close> offset. In every other case, that is whenever
  offset + 4 exceeds the length, and also whenever -4 \<open>\<le>\<close> offset < 0 or
  offset < -length, resolution raises and leaves the reader unchanged; the exception is
  IndexError (out of range) whenever every byte of the file has a colour in the table, as
  with a table of 256 entries, and is IndexError or KeyError otherwise. When the slice
  holds four bytes, resolution raises KeyError (unknown colour) if one of them has no
  colour in the table, leaving the reader unchanged, and otherwise succeeds.
\<close>

theorem LoadPalettes_failures:
  "(\<not> ((0 \<le> address \<and> address + 4 \<le> int (length (file_data self))) \<or>
            (address + 4 < 0 \<and> - int (length (file_data self)) \<le> address)) \<longrightarrow>
        snd (LoadPalettes nes [(palette_name, address)] self) = self \<and>
        (fst (LoadPalettes nes [(palette_name, address)] self) = Inl IndexError \<or> fst (LoadPalettes nes [(palette_name, address)] self) = Inl KeyError) \<and>
        ((\<forall>b\<in>set (file_data self). nes b \<noteq> None) \<longrightarrow> fst (LoadPalettes nes [(palette_name, address)] self) = Inl IndexError)) \<and>
   (((0 \<le> address \<and> address + 4 \<le> int (length (file_data self))) \<or>
            (address + 4 < 0 \<and> - int (length (file_data self)) \<le> address)) \<longrightarrow>
        (if nes (file_data self ! nat (if address < 0 then int (length (file_data self)) + address else address)) = None \<or>
            nes (file_data self ! (nat (if address < 0 then int (length (file_data self)) + address else address) + 1)) = None \<or>
            nes (file_data self ! (nat (if address < 0 then int (length (file_data self)) + address else address) + 2)) = None \<or>
            nes (file_data self ! (nat (if address < 0 then int (length (file_data self)) + address else address) + 3)) = None
         then LoadPalettes nes [(palette_name, address)] self = (Inl KeyError, self)
         else fst (LoadPalettes nes [(palette_name, address)] self) = Inr ()))"
proof -
  have out: "snd (LoadPalettes nes [(palette_name, address)] self) = self \<and>
        (fst (LoadPalettes nes [(palette_name, address)] self) = Inl IndexError \<or> fst (LoadPalettes nes [(palette_name, address)] self) = Inl KeyError) \<and>
        ((\<forall>b\<in>set (file_data self). nes b \<noteq> None) \<longrightarrow> fst (LoadPalettes nes [(palette_name, address)] self) = Inl IndexError)"
    if "\<not> ((0 \<le> address \<and> address + 4 \<le> int (length (file_data self))) \<or>
            (address + 4 < 0 \<and> - int (length (file_data self)) \<le> address))"
    using load_palette_outside [OF that, of nes palette_name]
    unfolding LoadPalettes_single .
  have ins: "if nes (file_data self ! nat (if address < 0 then int (length (file_data self)) + address else address)) = None \<or>
            nes (file_data self ! (nat (if address < 0 then int (length (file_data self)) + address else address) + 1)) = None \<or>
            nes (file_data self ! (nat (if address < 0 then int (length (file_data self)) + address else address) + 2)) = None \<or>
            nes (file_data self ! (nat (if address < 0 then int (length (file_data self)) + address else address) + 3)) = None
         then LoadPalettes nes [(palette_name, address)] self = (Inl KeyError, self)
         else fst (LoadPalettes nes [(palette_name, address)] self) = Inr ()"
    if "((0 \<le> address \<and> address + 4 \<le> int (length (file_data self))) \<or>
            (address + 4 < 0 \<and> - int (length (file_data self)) \<le> address))"
    using load_palette_inside [OF that, of nes palette_name]
    unfolding LoadPalettes_single palette_entries_four
    by (auto split: option.splits)
  from out ins show ?thesis by blast
qed

theorem LoadPalettes_failures_witness:
  "\<exists>self. init (\<lambda>b. Some (unat b, unat b, unat b)) [0x4e, 0x45, 0x53, 0x1a, 0, 0, 0, 0, 0, 0, 0, 0, 0, 0, 0, 0 :: byte] None = Inr self \<and>
     fst (LoadPalettes (\<lambda>b. Some (unat b, unat b, unat b)) [(''p'', 12)] self) = Inr () \<and>
     fst (LoadPalettes (\<lambda>b. Some (unat b, unat b, unat b)) [(''p'', 13)] self) = Inl IndexError \<and>
     fst (LoadPalettes (\<lambda>b. Some (unat b, unat b, unat b)) [(''p'', -4)] self) = Inl IndexError \<and>
     fst (LoadPalettes (\<lambda>b. Some (unat b, unat b, unat b)) [(''p'', -5)] self) = Inr () \<and>
     fst (LoadPalettes (\<lambda>b. Some (unat b, unat b, unat b)) [(''p'', -17)] self) = Inl IndexError \<and>
     fst (LoadPalettes (\<lambda>b. if b < 0x40 then Some (unat b, unat b, unat b) else None) [(''p'', 0)] self) = Inl KeyError"
proof -
  obtain self where self: "init (\<lambda>b. Some (unat b, unat b, unat b)) [0x4e, 0x45, 0x53, 0x1a, 0, 0, 0, 0, 0, 0, 0, 0, 0, 0, 0, 0 :: byte] None = Inr self"
    using init_cases [of "[0x4e, 0x45, 0x53, 0x1a, 0, 0, 0, 0, 0, 0, 0, 0, 0, 0, 0, 0 :: byte]" "(\<lambda>b. Some (unat b, unat b, unat b))" None] by auto
  have fd: "file_data self = [0x4e, 0x45, 0x53, 0x1a, 0, 0, 0, 0, 0, 0, 0, 0, 0, 0, 0, 0 :: byte]" using init_file_data [OF self] .
  have tot: "\<forall>b\<in>set (file_data self). (\<lambda>b. Some (unat b, unat b, unat b)) b \<noteq> None" by simp
  have "fst (LoadPalettes (\<lambda>b. Some (unat b, unat b, unat b)) [(''p'', 12)] self) = Inr ()"
    using LoadPalettes_failures [of 12 self "(\<lambda>b. Some (unat b, unat b, unat b))" "''p''"] by (simp add: fd)
  moreover have "fst (LoadPalettes (\<lambda>b. Some (unat b, unat b, unat b)) [(''p'', 13)] self) = Inl IndexError"
    using LoadPalettes_failures [of 13 self "(\<lambda>b. Some (unat b, unat b, unat b))" "''p''"] tot by (simp add: fd)
  moreover have "fst (LoadPalettes (\<lambda>b. Some (unat b, unat b, unat b)) [(''p'', -4)] self) = Inl IndexError"
    using LoadPalettes_failures [of "-4" self "(\<lambda>b. Some (unat b, unat b, unat b))" "''p''"] tot by (simp add: fd)
  moreover have "fst (LoadPalettes (\<lambda>b. Some (unat b, unat b, unat b)) [(''p'', -5)] self) = Inr ()"
    using LoadPalettes_failures [of "-5" self "(\<lambda>b. Some (unat b, unat b, unat b))" "''p''"] by (simp add: fd)
  moreover have "fst (LoadPalettes (\<lambda>b. Some (unat b, unat b, unat b)) [(''p'', -17)] self) = Inl IndexError"
    using LoadPalettes_failures [of "-17" self "(\<lambda>b. Some (unat b, unat b, unat b))" "''p''"] tot by (simp add: fd)
  moreover have "fst (LoadPalettes (\<lambda>b. if b < 0x40 then Some (unat b, unat b, unat b) else None) [(''p'', 0)] self) = Inl KeyError"
    using LoadPalettes_failures [of 0 self "(\<lambda>b. if b < 0x40 then Some (unat b, unat b, unat b) else None)" "''p''"] by (simp add: fd)
  ultimately show ?thesis using self by blast
qed

text \<open>
  Claim C6 as stated fails, whatever the colour table. Take a file of 16 bytes (a header
  with no banks), a table with a colour for every byte, and the palette address -4. Then
  address + 4 = 0 does not exceed the length of the file and no byte lacks a colour, so
  the claim promises success; but the slice \<open>[-4 : 0]\<close> is empty, and construction with
  this palette raises IndexError, although the same file without palettes is accepted.
\<close>

theorem LoadPalettes_negative_offset_counterexample:
  "(- 4 :: int) + 4 \<le> int (length [0x4e, 0x45, 0x53, 0x1a, 0, 0, 0, 0, 0, 0, 0, 0, 0, 0, 0, 0 :: byte]) \<and>
   \<not> isl (init (\<lambda>b. Some (unat b, unat b, unat b)) [0x4e, 0x45, 0x53, 0x1a, 0, 0, 0, 0, 0, 0, 0, 0, 0, 0, 0, 0 :: byte] None) \<and>
   init (\<lambda>b. Some (unat b, unat b, unat b)) [0x4e, 0x45, 0x53, 0x1a, 0, 0, 0, 0, 0, 0, 0, 0, 0, 0, 0, 0 :: byte] (Some [(''p'', - 4)]) = Inl IndexError"
proof -
  let ?D = "[0x4e, 0x45, 0x53, 0x1a, 0, 0, 0, 0, 0, 0, 0, 0, 0, 0, 0, 0 :: byte]"
  let ?T = "(\<lambda>b. Some (unat b, unat b, unat b))"
  have len: "11 \<le> length ?D" by simp
  obtain self where self: "init ?T ?D None = Inr self"
    using init_cases [of ?D ?T None] by auto
  have ls: "load_sprites (take (unat (?D ! 5) * 8192) (drop (16 + unat (?D ! 4) * 16384) ?D))
              (unat (?D ! 5) * 8192) = Inr []"
    by (simp add: load_sprites_def py_range_def)
  have lp: "load_palette ?T (''p'', - 4) s = (Inl IndexError, s)" if "file_data s = ?D" for s
    by (simp add: load_palette_def that py_slice_def clamp_index_def palette_entries_def
        palette_colour_def py_getitem_def)
  from init_long [OF len, of ?T "Some [(''p'', - 4)]"]
  obtain s0 where s0: "init ?T ?D (Some [(''p'', - 4)]) = init_palettes ?T (Some [(''p'', - 4)]) s0"
    "file_data s0 = ?D"
    unfolding ls ebind_simps by auto
  have "init_palettes ?T (Some [(''p'', - 4)]) s0 = Inl IndexError"
    by (simp add: init_palettes_def LoadPalettes_def lp [OF s0(2)])
  with s0(1) have "init ?T ?D (Some [(''p'', - 4)]) = Inl IndexError" by simp
  moreover from self have "\<not> isl (init ?T ?D None)" by simp
  moreover have "(- 4 :: int) + 4 \<le> int (length ?D)" by simp
  ultimately show ?thesis by blast
qed

subsection \<open>Loops over tiles\<close>

lemma draw_tile_ok:
  assumes "img < length h"
    and "py_getitem (sprites self) i = Inr t"
    and "length t = 8"
    and "\<forall>row\<in>set t. length row = 8 \<and> (\<forall>c\<in>set row. pal [c] \<noteq> None)"
    and "x_val + bc * 8 + 8 \<le> fst (size_px (h ! img))"
    and "y_val + br * 8 + 8 \<le> snd (size_px (h ! img))"
  shows "draw_tile self img pal x_val y_val br (bc, i) h =
         (Inr (), h[img := (h ! img)\<lparr>pixels :=
            (\<lambda>p. if x_val + bc * 8 \<le> fst p \<and> fst p < x_val + bc * 8 + 8 \<and>
                     y_val + br * 8 \<le> snd p \<and> snd p < y_val + br * 8 + 8
                  then the (pal [t ! (snd p - (y_val + br * 8)) ! (fst p - (x_val + bc * 8))])
                  else pixels (h ! img) p)\<rparr>])"
proof -
  have "for_each (draw_pixels img pal x_val y_val br bc) (zip [0..<0 + length t] t) h =
         (Inr (), h[img := (h ! img)\<lparr>pixels :=
            (\<lambda>p. if x_val + bc * 8 \<le> fst p \<and> fst p < x_val + bc * 8 + 8 \<and>
                     y_val + br * 8 + 0 \<le> snd p \<and> snd p < y_val + br * 8 + 0 + length t
                  then the (pal [t ! (snd p - (y_val + br * 8) - 0) ! (fst p - (x_val + bc * 8))])
                  else pixels (h ! img) p)\<rparr>])"
    using assms by (intro draw_rows_loop) simp_all
  then show ?thesis
    using assms(2,3) by (simp add: draw_tile_def py_enumerate_def cong: if_cong)
qed

lemma draw_tile_bad:
  "py_getitem (sprites self) i = Inl e \<Longrightarrow>
     draw_tile self img pal x_val y_val br (bc, i) h = (Inl e, h)"
  by (simp add: draw_tile_def)

lemma py_getitem_error: "py_getitem xs i = Inl e \<Longrightarrow> e = IndexError"
  by (auto simp: py_getitem_def split: if_splits)

lemma py_getitem_in_range:
  "- int (length xs) \<le> i \<Longrightarrow> i < int (length xs) \<Longrightarrow>
     \<exists>x\<in>set xs. py_getitem xs i = Inr x"
  by (auto simp: py_getitem_def)

lemma py_getitem_out_of_range:
  "i < - int (length xs) \<or> int (length xs) \<le> i \<Longrightarrow> py_getitem xs i = Inl IndexError"
  by (auto simp: py_getitem_def)

lemma py_getitem_nat: "k < length xs \<Longrightarrow> py_getitem xs (int k) = Inr (xs ! k)"
  by (simp add: py_getitem_def)


lemma for_each_ok:
  assumes "\<And>x s. x \<in> set xs \<Longrightarrow> I s \<Longrightarrow> \<exists>s'. f x s = (Inr (), s') \<and> I s'" and "I s"
  shows "\<exists>s'. for_each f xs s = (Inr (), s') \<and> I s'"
  using assms
proof (induction xs arbitrary: s)
  case Nil
  then show ?case by simp
next
  case (Cons x xs)
  from Cons.prems(1) [of x s] Cons.prems(2) obtain s1 where s1: "f x s = (Inr (), s1)" "I s1"
    by auto
  have "\<exists>s'. for_each f xs s1 = (Inr (), s') \<and> I s'"
    by (rule Cons.IH) (use Cons.prems(1) s1(2) in auto)
  with s1(1) show ?case by simp
qed

lemma for_each_error:
  assumes "\<And>x s. x \<in> set xs \<Longrightarrow> I s \<Longrightarrow>
              (\<exists>s'. f x s = (Inr (), s') \<and> I s') \<or> (\<exists>s'. f x s = (Inl E, s'))"
    and "\<exists>x\<in>set xs. \<forall>s. I s \<longrightarrow> (\<exists>s'. f x s = (Inl E, s'))"
    and "I s"
  shows "\<exists>s'. for_each f xs s = (Inl E, s')"
  using assms
proof (induction xs arbitrary: s)
  case Nil
  then show ?case by simp
next
  case (Cons x xs)
  from Cons.prems(1) [of x s] Cons.prems(3)
  consider s1 where "f x s = (Inr (), s1)" "I s1" | s1 where "f x s = (Inl E, s1)"
    by auto
  then show ?case
  proof cases
    case 1
    from Cons.prems(2) 1(1) Cons.prems(3)
    have ex: "\<exists>y\<in>set xs. \<forall>s. I s \<longrightarrow> (\<exists>s'. f y s = (Inl E, s'))" by auto
    have "\<exists>s'. for_each f xs s1 = (Inl E, s')"
      by (rule Cons.IH) (use Cons.prems(1) ex 1(2) in auto)
    with 1(1) show ?thesis by simp
  next
    case 2
    then show ?thesis by simp
  qed
qed

lemma set_py_enumerate:
  "(k, x) \<in> set (py_enumerate xs) \<longleftrightarrow> k < length xs \<and> x = xs ! k"
proof
  assume "(k, x) \<in> set (py_enumerate xs)"
  then show "k < length xs \<and> x = xs ! k"
    by (auto simp: py_enumerate_def set_zip)
next
  assume a: "k < length xs \<and> x = xs ! k"
  then have "(k, x) = ([0..<length xs] ! k, xs ! k)" "k < min (length [0..<length xs]) (length xs)"
    by simp_all
  then show "(k, x) \<in> set (py_enumerate xs)"
    unfolding py_enumerate_def set_zip by blast
qed

lemma max_by_len_ge:
  "length r \<le> length (max_by_len r rs) \<and> (\<forall>x\<in>set rs. length x \<le> length (max_by_len r rs))"
  unfolding max_by_len_def
proof (induction rs arbitrary: r)
  case Nil
  then show ?case by simp
next
  case (Cons a rs)
  show ?case
    using Cons [of a] Cons [of r] by (auto simp: not_less)
qed

lemma GetSpriteSize_bound:
  assumes "rows \<noteq> []"
  shows "\<exists>n. GetSpriteSize rows = Inr (n * 8, length rows * 8) \<and> (\<forall>row\<in>set rows. length row \<le> n)"
proof (cases rows)
  case Nil
  with assms show ?thesis by simp
next
  case (Cons r rs)
  then show ?thesis
    using max_by_len_ge [of r rs] by (auto simp: GetSpriteSize_def)
qed

subsection \<open>Drawing a layout\<close>

lemma draw_tile_cases:
  assumes "\<forall>t\<in>set (sprites self). length t = 8 \<and>
             (\<forall>row\<in>set t. length row = 8 \<and> (\<forall>c\<in>set row. pal [c] \<noteq> None))"
    and "img < length h"
    and "x_val + bc * 8 + 8 \<le> fst (size_px (h ! img))"
    and "y_val + br * 8 + 8 \<le> snd (size_px (h ! img))"
  shows "(- int (length (sprites self)) \<le> i \<and> i < int (length (sprites self)) \<longrightarrow>
           (\<exists>h'. draw_tile self img pal x_val y_val br (bc, i) h = (Inr (), h') \<and>
                 length h' = length h \<and> size_px (h' ! img) = size_px (h ! img))) \<and>
         (\<not> (- int (length (sprites self)) \<le> i \<and> i < int (length (sprites self))) \<longrightarrow>
           draw_tile self img pal x_val y_val br (bc, i) h = (Inl IndexError, h))"
proof (intro conjI impI)
  assume "- int (length (sprites self)) \<le> i \<and> i < int (length (sprites self))"
  then obtain t where t: "t \<in> set (sprites self)" "py_getitem (sprites self) i = Inr t"
    using py_getitem_in_range [of "sprites self" i] by blast
  from assms(1) t(1) have wf: "length t = 8"
    "\<forall>row\<in>set t. length row = 8 \<and> (\<forall>c\<in>set row. pal [c] \<noteq> None)" by auto
  show "\<exists>h'. draw_tile self img pal x_val y_val br (bc, i) h = (Inr (), h') \<and>
                 length h' = length h \<and> size_px (h' ! img) = size_px (h ! img)"
    unfolding draw_tile_ok [OF assms(2) t(2) wf assms(3,4)]
    using assms(2) by simp
next
  assume "\<not> (- int (length (sprites self)) \<le> i \<and> i < int (length (sprites self)))"
  then have "py_getitem (sprites self) i = Inl IndexError"
    by (intro py_getitem_out_of_range) auto
  then show "draw_tile self img pal x_val y_val br (bc, i) h = (Inl IndexError, h)"
    by (rule draw_tile_bad)
qed

lemma draw_block_row_ok:
  assumes tiles: "\<forall>t\<in>set (sprites self). length t = 8 \<and>
             (\<forall>row\<in>set t. length row = 8 \<and> (\<forall>c\<in>set row. pal [c] \<noteq> None))"
    and w: "x_val + length row * 8 \<le> W"
    and ht: "y_val + br * 8 + 8 \<le> H"
    and idx: "\<forall>i\<in>set row. - int (length (sprites self)) \<le> i \<and> i < int (length (sprites self))"
    and inv: "img < length h \<and> W \<le> fst (size_px (h ! img)) \<and> H \<le> snd (size_px (h ! img))"
  shows "\<exists>h'. draw_block_row self img pal x_val y_val (br, row) h = (Inr (), h') \<and>
           (img < length h' \<and> W \<le> fst (size_px (h' ! img)) \<and> H \<le> snd (size_px (h' ! img)))"
proof -
  have step: "\<exists>s'. draw_tile self img pal x_val y_val br e s = (Inr (), s') \<and>
        (img < length s' \<and> W \<le> fst (size_px (s' ! img)) \<and> H \<le> snd (size_px (s' ! img)))"
    if e: "e \<in> set (py_enumerate row)"
      and s: "img < length s \<and> W \<le> fst (size_px (s ! img)) \<and> H \<le> snd (size_px (s ! img))"
    for e s
  proof -
    obtain bc i where bi: "e = (bc, i)" by (cases e)
    with e have bc: "bc < length row" "i = row ! bc" by (simp_all add: set_py_enumerate)
    then have i: "- int (length (sprites self)) \<le> i \<and> i < int (length (sprites self))"
      using idx by simp
    from bc(1) w s have x: "x_val + bc * 8 + 8 \<le> fst (size_px (s ! img))" by simp
    from ht s have y: "y_val + br * 8 + 8 \<le> snd (size_px (s ! img))" by simp
    from s have s1: "img < length s" by simp
    from draw_tile_cases [OF tiles s1 x y, of i] i
    obtain s' where "draw_tile self img pal x_val y_val br (bc, i) s = (Inr (), s')"
      "length s' = length s" "size_px (s' ! img) = size_px (s ! img)" by blast
    with s bi show ?thesis by simp
  qed
  show ?thesis
    unfolding draw_block_row_def prod.case Let_def
    by (rule for_each_ok [where I = "\<lambda>s :: heap. img < length s \<and> W \<le> fst (size_px (s ! img)) \<and>
          H \<le> snd (size_px (s ! img))"]) (use step inv in auto)
qed

lemma draw_block_row_bad:
  assumes tiles: "\<forall>t\<in>set (sprites self). length t = 8 \<and>
             (\<forall>row\<in>set t. length row = 8 \<and> (\<forall>c\<in>set row. pal [c] \<noteq> None))"
    and w: "x_val + length row * 8 \<le> W"
    and ht: "y_val + br * 8 + 8 \<le> H"
    and idx: "\<exists>i\<in>set row. \<not> (- int (length (sprites self)) \<le> i \<and> i < int (length (sprites self)))"
    and inv: "img < length h \<and> W \<le> fst (size_px (h ! img)) \<and> H \<le> snd (size_px (h ! img))"
  shows "\<exists>h'. draw_block_row self img pal x_val y_val (br, row) h = (Inl IndexError, h')"
proof -
  let ?I = "\<lambda>s :: heap. img < length s \<and> W \<le> fst (size_px (s ! img)) \<and> H \<le> snd (size_px (s ! img))"
  have step: "(\<exists>s'. draw_tile self img pal x_val y_val br e s = (Inr (), s') \<and> ?I s') \<or>
        (\<exists>s'. draw_tile self img pal x_val y_val br e s = (Inl IndexError, s'))"
    if e: "e \<in> set (py_enumerate row)" and s: "?I s" for e s
  proof -
    obtain bc i where bi: "e = (bc, i)" by (cases e)
    with e have bc: "bc < length row" by (simp add: set_py_enumerate)
    from bc w s have x: "x_val + bc * 8 + 8 \<le> fst (size_px (s ! img))" by simp
    from ht s have y: "y_val + br * 8 + 8 \<le> snd (size_px (s ! img))" by simp
    from s have s1: "img < length s" by simp
    from draw_tile_cases [OF tiles s1 x y, of i] s
    show ?thesis unfolding bi by (cases "- int (length (sprites self)) \<le> i \<and> i < int (length (sprites self))") auto
  qed
  from idx obtain i where i: "i \<in> set row"
    "\<not> (- int (length (sprites self)) \<le> i \<and> i < int (length (sprites self)))" by blast
  then obtain bc where bc: "bc < length row" "row ! bc = i" by (auto simp: in_set_conv_nth)
  then have mem: "(bc, i) \<in> set (py_enumerate row)" by (simp add: set_py_enumerate)
  have bad: "\<forall>s. ?I s \<longrightarrow> (\<exists>s'. draw_tile self img pal x_val y_val br (bc, i) s = (Inl IndexError, s'))"
  proof (intro allI impI)
    fix s assume s: "?I s"
    from bc w s have x: "x_val + bc * 8 + 8 \<le> fst (size_px (s ! img))" by simp
    from ht s have y: "y_val + br * 8 + 8 \<le> snd (size_px (s ! img))" by simp
    from s have s1: "img < length s" by simp
    from draw_tile_cases [OF tiles s1 x y, of i] i(2)
    show "\<exists>s'. draw_tile self img pal x_val y_val br (bc, i) s = (Inl IndexError, s')" by blast
  qed
  show ?thesis
    unfolding draw_block_row_def prod.case Let_def
    by (rule for_each_error [where I = ?I]) (use step mem bad inv in blast)+
qed

lemma canvas_ready:
  assumes "img = None \<or> (\<exists>i. img = Some i \<and> i < length h)"
  shows "\<exists>img1 h1.
           (case img of
              None \<Rightarrow> Image_new h ''RGB'' (width + x_val, height + y_val) white
            | Some i \<Rightarrow> MaybeEnlargeImage h i width height x_val y_val) = (img1, h1) \<and>
           img1 < length h1 \<and> width + x_val \<le> fst (size_px (h1 ! img1)) \<and>
           height + y_val \<le> snd (size_px (h1 ! img1))"
proof (cases img)
  case None
  then show ?thesis by (simp add: Image_new_def)
next
  case (Some i)
  with assms have i: "i < length h" by simp
  show ?thesis
  proof (cases "width + x_val \<le> fst (size_px (h ! i)) \<and> height + y_val \<le> snd (size_px (h ! i))")
    case True
    then show ?thesis using i Some by (simp add: MaybeEnlargeImage_fits)
  next
    case False
    show ?thesis
      unfolding Some option.case MaybeEnlargeImage_grows [OF False i]
      by (simp add: nth_append)
  qed
qed

lemma DrawSprite_unfold:
  assumes "GetSpriteSize rows = Inr (width, height)"
    and "(case img of
              None \<Rightarrow> Image_new h ''RGB'' (width + x_val, height + y_val) white
            | Some i \<Rightarrow> MaybeEnlargeImage h i width height x_val y_val) = (img1, h1)"
  shows "DrawSprite self h img (Some rows) pal x_val y_val =
     (case for_each (draw_block_row self img1 (case pal of None \<Rightarrow> DEFAULT_PALETTE | Some p \<Rightarrow> p)
                       x_val y_val) (py_enumerate rows) h1 of
        (Inl e, h2) \<Rightarrow> (Inl e, h2)
      | (Inr u, h2) \<Rightarrow> (Inr img1, h2))"
  using assms by (simp add: DrawSprite_def)


lemma DrawSprite_bad_index:
  assumes tiles: "\<forall>t\<in>set (sprites self). length t = 8 \<and>
             (\<forall>row\<in>set t. length row = 8 \<and>
                (\<forall>c\<in>set row. (case pal of None \<Rightarrow> DEFAULT_PALETTE | Some p \<Rightarrow> p) [c] \<noteq> None))"
    and idx: "\<exists>row\<in>set rows. \<exists>i\<in>set row.
                \<not> (- int (length (sprites self)) \<le> i \<and> i < int (length (sprites self)))"
    and img: "img = None \<or> (\<exists>i. img = Some i \<and> i < length h)"
  shows "\<exists>h'. DrawSprite self h img (Some rows) pal x_val y_val = (Inl IndexError, h')"
proof -
  let ?pal = "case pal of None \<Rightarrow> DEFAULT_PALETTE | Some p \<Rightarrow> p"
  let ?ok = "\<lambda>i. - int (length (sprites self)) \<le> i \<and> i < int (length (sprites self))"
  from idx have rows: "rows \<noteq> []" by auto
  from GetSpriteSize_bound [OF rows] obtain n where
    n: "GetSpriteSize rows = Inr (n * 8, length rows * 8)" "\<forall>row\<in>set rows. length row \<le> n" by blast
  from canvas_ready [OF img, of "n * 8" x_val "length rows * 8" y_val]
  obtain img1 h1 where c: "(case img of
              None \<Rightarrow> Image_new h ''RGB'' (n * 8 + x_val, length rows * 8 + y_val) white
            | Some i \<Rightarrow> MaybeEnlargeImage h i (n * 8) (length rows * 8) x_val y_val) = (img1, h1)"
    and inv: "img1 < length h1 \<and> n * 8 + x_val \<le> fst (size_px (h1 ! img1)) \<and>
           length rows * 8 + y_val \<le> snd (size_px (h1 ! img1))" by blast
  let ?I = "\<lambda>s :: heap. img1 < length s \<and> n * 8 + x_val \<le> fst (size_px (s ! img1)) \<and>
           length rows * 8 + y_val \<le> snd (size_px (s ! img1))"
  have bounds: "x_val + length (rows ! br) * 8 \<le> n * 8 + x_val"
    "y_val + br * 8 + 8 \<le> length rows * 8 + y_val" if "br < length rows" for br
    using that n(2) by simp_all
  have step: "(\<exists>s'. draw_block_row self img1 ?pal x_val y_val e s = (Inr (), s') \<and> ?I s') \<or>
      (\<exists>s'. draw_block_row self img1 ?pal x_val y_val e s = (Inl IndexError, s'))"
    if e: "e \<in> set (py_enumerate rows)" and s: "?I s" for e s
  proof -
    obtain br row where e': "e = (br, row)" by (cases e)
    with e have br: "br < length rows" "row = rows ! br" by (simp_all add: set_py_enumerate)
    show ?thesis
    proof (cases "\<forall>i\<in>set row. ?ok i")
      case True
      from draw_block_row_ok [OF tiles bounds [OF br(1)] True [unfolded br(2)] s]
      show ?thesis unfolding e' br(2) by blast
    next
      case False
      then have "\<exists>i\<in>set (rows ! br). \<not> ?ok i" unfolding br(2) by blast
      from draw_block_row_bad [OF tiles bounds [OF br(1)] this s]
      show ?thesis unfolding e' br(2) by blast
    qed
  qed
  from idx obtain row where row: "row \<in> set rows" "\<exists>i\<in>set row. \<not> ?ok i" by blast
  then obtain br where br: "br < length rows" "rows ! br = row" by (auto simp: in_set_conv_nth)
  then have mem: "(br, row) \<in> set (py_enumerate rows)" by (simp add: set_py_enumerate)
  have bad: "\<forall>s. ?I s \<longrightarrow> (\<exists>s'. draw_block_row self img1 ?pal x_val y_val (br, row) s = (Inl IndexError, s'))"
  proof (intro allI impI)
    fix s :: heap assume s: "?I s"
    from row(2) have "\<exists>i\<in>set (rows ! br). \<not> ?ok i" unfolding br(2) .
    from draw_block_row_bad [OF tiles bounds [OF br(1)] this s]
    show "\<exists>s'. draw_block_row self img1 ?pal x_val y_val (br, row) s = (Inl IndexError, s')"
      unfolding br(2) .
  qed
  have "\<exists>s'. for_each (draw_block_row self img1 ?pal x_val y_val) (py_enumerate rows) h1 = (Inl IndexError, s')"
    by (rule for_each_error [where I = ?I]) (use step mem bad inv in blast)+
  then show ?thesis
    unfolding DrawSprite_unfold [OF n(1) c] by auto
qed

subsection \<open>Negative tile indices\<close>









subsection \<open>The tiles of a constructed reader\<close>

lemma tile_char_key:
  "(if a then (if b then CHR ''3'' else CHR ''2'') else (if b then CHR ''1'' else CHR ''0''))
     \<in> set ''0123''"
  by simp

lemma LoadSprite_16_shape:
  assumes "length sprite_data = 16" and "LoadSprite sprite_data = Inr t"
  shows "length t = 8 \<and> (\<forall>row\<in>set t. length row = 8 \<and> set row \<subseteq> set ''0123'')"
proof -
  define f where "f = (\<lambda>i k. if bit (sprite_data ! i) k
                              then (if bit (sprite_data ! (i + 8)) k then CHR ''3'' else CHR ''2'')
                              else (if bit (sprite_data ! (i + 8)) k then CHR ''1'' else CHR ''0''))"
  have key: "f i k \<in> set ''0123''" for i k unfolding f_def by (rule tile_char_key)
  from assms(2) have t: "t = map (\<lambda>i. map (f i) [7, 6, 5, 4, 3, 2, 1, 0]) [0..<8]"
    unfolding LoadSprite_16 [OF assms(1)] f_def by simp
  have "length t = 8" unfolding t by simp
  moreover have "length row = 8 \<and> set row \<subseteq> set ''0123''" if "row \<in> set t" for row
  proof -
    from that obtain i where row: "row = map (f i) [7, 6, 5, 4, 3, 2, 1, 0]"
      unfolding t by auto
    have "length row = 8" unfolding row by simp
    moreover have "set row \<subseteq> set ''0123''"
      unfolding row set_map using key by blast
    ultimately show ?thesis by simp
  qed
  ultimately show ?thesis by blast
qed

text \<open>Every tile of a reader that \<open>__init__\<close> returns is 8 rows of 8 characters among
  \<open>0\<close>, \<open>1\<close>, \<open>2\<close>, \<open>3\<close>, and the default palette has a colour for each of them.\<close>

lemma init_sprites_shape:
  assumes "init nes data pals = Inr self"
  shows "\<forall>t\<in>set (sprites self). length t = 8 \<and> (\<forall>row\<in>set t. length row = 8 \<and> set row \<subseteq> set ''0123'')"
proof -
  let ?n = "unat (data ! 5) * 8192 div 16"
  let ?s = "16 + unat (data ! 4) * 16384"
  note c = init_cases [of data nes pals]
  have len: "11 \<le> length data"
  proof (rule ccontr)
    assume "\<not> 11 \<le> length data"
    then have "length data < 11" by simp
    with c have "init nes data pals = Inl IndexError" by blast
    with assms show False by simp
  qed
  have reg: "unat (data ! 5) = 0 \<or> ?s + unat (data ! 5) * 8192 \<le> length data"
  proof (rule ccontr)
    assume "\<not> (unat (data ! 5) = 0 \<or> ?s + unat (data ! 5) * 8192 \<le> length data)"
    then have "0 < unat (data ! 5) \<and> length data < ?s + unat (data ! 5) * 8192" by simp
    with len c have "init nes data pals = Inl ValueError" by blast
    with assms show False by simp
  qed
  from init_tiles [OF reg len, of nes]
  obtain self0 :: NESSpriteReader where s0: "sprites self0 = map (\<lambda>k. projr (LoadSprite (take 16 (drop (?s + 16 * k) data)))) [0..<?n]"
    and all: "\<forall>pals (self' :: NESSpriteReader). init nes data pals = Inr self' \<longrightarrow> sprites self' = sprites self0"
    by (elim exE conjE)
  from all assms have "sprites self = sprites self0" by blast
  with s0 have sp: "sprites self = map (\<lambda>k. projr (LoadSprite (take 16 (drop (?s + 16 * k) data)))) [0..<?n]"
    by simp
  show ?thesis
  proof
    fix t assume "t \<in> set (sprites self)"
    then obtain k where k: "k < ?n" "t = projr (LoadSprite (take 16 (drop (?s + 16 * k) data)))"
      unfolding sp by auto
    from k(1) have pos: "unat (data ! 5) \<noteq> 0" by (cases "unat (data ! 5) = 0") simp_all
    with reg have "?s + unat (data ! 5) * 8192 \<le> length data" by simp
    moreover from k(1) have "16 * k + 16 \<le> unat (data ! 5) * 8192" by simp
    ultimately have l: "length (take 16 (drop (?s + 16 * k) data)) = 16" by simp
    from LoadSprite_16 [OF l] have "\<exists>t'. LoadSprite (take 16 (drop (?s + 16 * k) data)) = Inr t'"
      by blast
    then obtain t' where t': "LoadSprite (take 16 (drop (?s + 16 * k) data)) = Inr t'" by blast
    with k(2) have "t = t'" by simp
    with LoadSprite_16_shape [OF l t']
    show "length t = 8 \<and> (\<forall>row\<in>set t. length row = 8 \<and> set row \<subseteq> set ''0123'')" by simp
  qed
qed

lemma DEFAULT_PALETTE_covers: "c \<in> set ''0123'' \<Longrightarrow> DEFAULT_PALETTE [c] \<noteq> None"
  by (auto simp: DEFAULT_PALETTE_def)

lemma init_sprites_drawable:
  assumes "init nes data pals = Inr self"
  shows "\<forall>t\<in>set (sprites self). length t = 8 \<and>
           (\<forall>row\<in>set t. length row = 8 \<and>
              (\<forall>c\<in>set row. (case None of None \<Rightarrow> DEFAULT_PALETTE | Some p \<Rightarrow> p) [c] \<noteq> None))"
  using init_sprites_shape [OF assms] DEFAULT_PALETTE_covers
  unfolding option.case by (meson subsetD)

lemma sample_rom:
  "\<exists>self. init nes ([0x4e, 0x45, 0x53, 0x1a, 0, 1, 0, 0, 0, 0, 0, 0, 0, 0, 0, 0] @ replicate 8176 (0::byte) @ replicate 8 255 @ replicate 8 0) None = Inr self \<and>
     sprites self = replicate 511 (replicate 8 ''00000000'') @ [replicate 8 ''22222222'']"
proof -
  define hdr :: "byte list" where "hdr = [0x4e, 0x45, 0x53, 0x1a, 0, 1, 0, 0, 0, 0, 0, 0, 0, 0, 0, 0]"
  define D where "D = hdr @ replicate 8176 (0::byte) @ replicate 8 255 @ replicate 8 0"
  have lh: "length hdr = 16" by (simp add: hdr_def)
  have d4: "D ! 4 = 0" and d5: "D ! 5 = 1"
    by (simp_all add: D_def hdr_def)
  have len: "length D = 8208" by (simp add: D_def lh)
  have reg: "unat (D ! 5) = 0 \<or> 16 + unat (D ! 4) * 16384 + unat (D ! 5) * 8192 \<le> length D"
    unfolding d4 d5 len by simp
  have l11: "11 \<le> length D" unfolding len by simp
  from init_tiles [OF reg l11, of nes]
  obtain self where self: "init nes D None = Inr self"
    and sp: "sprites self = map (\<lambda>k. projr (LoadSprite (take 16 (drop (16 + unat (D ! 4) * 16384 + 16 * k) D))))
                      [0..<unat (D ! 5) * 8192 div 16]"
    by blast
  have cnt: "unat (D ! 5) * 8192 div 16 = 512" unfolding d5 by simp
  have start: "16 + unat (D ! 4) * 16384 + 16 * k = 16 + 16 * k" for k unfolding d4 by simp
  have dr: "drop (16 + 16 * k) D = drop (16 * k) (replicate 8176 (0::byte) @ replicate 8 255 @ replicate 8 0)" for k
    unfolding D_def by (simp add: lh)
  have zero: "take 16 (drop (16 + 16 * k) D) = replicate 16 0" if "k < 511" for k
  proof -
    from that have "16 \<le> 8176 - 16 * k" by simp
    then show ?thesis unfolding dr by (simp add: min_def)
  qed
  have "take 16 (drop (16 + 16 * 511) D) = replicate 8 255 @ replicate 8 0"
    unfolding dr by simp
  then have last: "take 16 (drop 8192 D) = replicate 8 255 @ replicate 8 0" by simp
  have "sprites self = replicate 511 (replicate 8 ''00000000'') @ [replicate 8 ''22222222'']"
  proof (rule nth_equalityI)
    show "length (sprites self) = length (replicate 511 (replicate 8 ''00000000'') @ [replicate 8 ''22222222''])"
      unfolding sp cnt by simp
  next
    fix k assume "k < length (sprites self)"
    then have k: "k < 512" unfolding sp cnt by simp
    then have nth: "sprites self ! k = projr (LoadSprite (take 16 (drop (16 + 16 * k) D)))"
      unfolding sp cnt start by simp
    show "sprites self ! k = (replicate 511 (replicate 8 ''00000000'') @ [replicate 8 ''22222222'']) ! k"
    proof (cases "k < 511")
      case True
      then show ?thesis unfolding nth zero [OF True] LoadSprite_zero by (simp add: nth_append)
    next
      case False
      with k have "k = 511" by simp
      then show ?thesis unfolding nth by (simp add: last LoadSprite_planeA nth_append)
    qed
  qed
  with self show ?thesis unfolding D_def hdr_def by blast
qed



subsection \<open>The rows of the sprite sheet\<close>

lemma GetSpriteSize_single: "GetSpriteSize [[j]] = Inr (8, 8)"
  by (simp add: GetSpriteSize_def max_by_len_def)

lemma DrawSprite_single:
  assumes "img < length h"
    and "py_getitem (sprites self) j = Inr t"
    and "length t = 8"
    and "\<forall>row\<in>set t. length row = 8 \<and> (\<forall>c\<in>set row. pal [c] \<noteq> None)"
    and "x_val + 8 \<le> fst (size_px (h ! img))"
    and "y_val + 8 \<le> snd (size_px (h ! img))"
  shows "DrawSprite self h (Some img) (Some [[j]]) (Some pal) x_val y_val =
         (Inr img, h[img := (h ! img)\<lparr>pixels :=
            (\<lambda>p. if x_val \<le> fst p \<and> fst p < x_val + 8 \<and> y_val \<le> snd p \<and> snd p < y_val + 8
                  then the (pal [t ! (snd p - y_val) ! (fst p - x_val)])
                  else pixels (h ! img) p)\<rparr>])"
proof -
  have fits: "MaybeEnlargeImage h img 8 8 x_val y_val = (img, h)"
    using assms(5,6) by (intro MaybeEnlargeImage_fits) simp_all
  have c: "(case Some img of
              None \<Rightarrow> Image_new h ''RGB'' (8 + x_val, 8 + y_val) white
            | Some i \<Rightarrow> MaybeEnlargeImage h i 8 8 x_val y_val) = (img, h)"
    using fits by simp
  have tile: "draw_tile self img pal x_val y_val 0 (0, j) h =
         (Inr (), h[img := (h ! img)\<lparr>pixels :=
            (\<lambda>p. if x_val \<le> fst p \<and> fst p < x_val + 8 \<and> y_val \<le> snd p \<and> snd p < y_val + 8
                  then the (pal [t ! (snd p - y_val) ! (fst p - x_val)])
                  else pixels (h ! img) p)\<rparr>])"
    using draw_tile_ok [OF assms(1,2,3,4), of x_val 0 y_val 0] assms(5,6)
    by (simp cong: if_cong)
  have en1: "py_enumerate [[j]] = [(0, [j])]" and en2: "py_enumerate [j] = [(0, j)]"
    by (simp_all add: py_enumerate_def)
  show ?thesis
    unfolding DrawSprite_unfold [OF GetSpriteSize_single c] en1
    by (simp add: draw_block_row_def en2 tile)
qed

lemma DrawSprite_single_bad:
  assumes "py_getitem (sprites self) j = Inl e"
  shows "DrawSprite self h (Some img) (Some [[j]]) (Some pal) x_val y_val =
         (Inl e, snd (MaybeEnlargeImage h img 8 8 x_val y_val))"
proof -
  obtain img1 h1 where m: "MaybeEnlargeImage h img 8 8 x_val y_val = (img1, h1)"
    by (cases "MaybeEnlargeImage h img 8 8 x_val y_val")
  then have c: "(case Some img of
              None \<Rightarrow> Image_new h ''RGB'' (8 + x_val, 8 + y_val) white
            | Some i \<Rightarrow> MaybeEnlargeImage h i 8 8 x_val y_val) = (img1, h1)"
    by simp
  have en1: "py_enumerate [[j]] = [(0, [j])]" and en2: "py_enumerate [j] = [(0, j)]"
    by (simp_all add: py_enumerate_def)
  show ?thesis
    unfolding DrawSprite_unfold [OF GetSpriteSize_single c] en1 m
    by (simp add: draw_block_row_def en2 draw_tile_bad [OF assms])
qed

lemma py_range_step_one: "py_range 0 n 1 = [0..<n]"
  by (simp add: py_range_def map_idI)

lemma cell_coordinates:
  fixes x c :: nat
  assumes "c * 8 \<le> x" "x < c * 8 + 8"
  shows "x div 8 = c" "x - c * 8 = x mod 8"
proof -
  from assms obtain r where r: "x = c * 8 + r" "r < 8"
    by (metis add_less_cancel_left le_Suc_ex)
  then show "x div 8 = c" by simp
  from r show "x - c * 8 = x mod 8" by simp
qed

lemma draw_sheet_row_cells:
  assumes tiles: "\<forall>t\<in>set (sprites self). length t = 8 \<and>
             (\<forall>row\<in>set t. length row = 8 \<and> (\<forall>c\<in>set row. pal [c] \<noteq> None))"
    and "c \<le> per_row" and "img < length h"
    and "per_row * 8 \<le> fst (size_px (h ! img))"
    and "y + 8 \<le> snd (size_px (h ! img))"
  shows "draw_sheet_row self img pal R y [c..<per_row] h =
         (Inr (), h[img := (h ! img)\<lparr>pixels :=
            (\<lambda>p. if y \<le> snd p \<and> snd p < y + 8 \<and> c * 8 \<le> fst p \<and> fst p < per_row * 8 \<and>
                     R + fst p div 8 < length (sprites self)
                  then the (pal [sprites self ! (R + fst p div 8) ! (snd p - y) ! (fst p mod 8)])
                  else pixels (h ! img) p)\<rparr>])"
  using assms(2-)
proof (induction "per_row - c" arbitrary: c h)
  case 0
  then have c: "c = per_row" by simp
  have "(\<lambda>p. if y \<le> snd p \<and> snd p < y + 8 \<and> c * 8 \<le> fst p \<and> fst p < per_row * 8 \<and>
                     R + fst p div 8 < length (sprites self)
                  then the (pal [sprites self ! (R + fst p div 8) ! (snd p - y) ! (fst p mod 8)])
                  else pixels (h ! img) p) = pixels (h ! img)"
    unfolding c by (rule ext) auto
  then show ?case unfolding c by simp
next
  case (Suc k)
  then have lt: "c < per_row" and k: "k = per_row - Suc c" and sc: "Suc c \<le> per_row" by simp_all
  have cols: "[c..<per_row] = c # [Suc c..<per_row]" using lt by (rule upt_conv_Cons)
  have fx: "c * 8 + 8 \<le> fst (size_px (h ! img))" using lt Suc.prems(3) by simp
  show ?case
  proof (cases "R + c < length (sprites self)")
    case True
    define t where "t = sprites self ! (R + c)"
    have get: "py_getitem (sprites self) (int (R + c)) = Inr t"
      unfolding t_def using True by (rule py_getitem_nat)
    from True have "t \<in> set (sprites self)" unfolding t_def by simp
    with tiles have wf: "length t = 8"
      "\<forall>row\<in>set t. length row = 8 \<and> (\<forall>c\<in>set row. pal [c] \<noteq> None)" by blast+
    define f1 where "f1 = (\<lambda>p. if c * 8 \<le> fst p \<and> fst p < c * 8 + 8 \<and> y \<le> snd p \<and> snd p < y + 8
                  then the (pal [t ! (snd p - y) ! (fst p - c * 8)])
                  else pixels (h ! img) p)"
    define h1 where "h1 = h[img := (h ! img)\<lparr>pixels := f1\<rparr>]"
    have d: "DrawSprite self h (Some img) (Some [[int (R + c)]]) (Some pal) (c * 8) y = (Inr img, h1)"
      unfolding h1_def f1_def
      by (rule DrawSprite_single [OF Suc.prems(2) get wf fx Suc.prems(4)])
    have h1: "img < length h1" "h1 ! img = (h ! img)\<lparr>pixels := f1\<rparr>"
      using Suc.prems(2) by (simp_all add: h1_def)
    have s1: "per_row * 8 \<le> fst (size_px (h1 ! img))" "y + 8 \<le> snd (size_px (h1 ! img))"
      using Suc.prems(3,4) by (simp_all add: h1(2))
    have ih: "draw_sheet_row self img pal R y [Suc c..<per_row] h1 =
         (Inr (), h1[img := (h1 ! img)\<lparr>pixels :=
            (\<lambda>p. if y \<le> snd p \<and> snd p < y + 8 \<and> Suc c * 8 \<le> fst p \<and> fst p < per_row * 8 \<and>
                     R + fst p div 8 < length (sprites self)
                  then the (pal [sprites self ! (R + fst p div 8) ! (snd p - y) ! (fst p mod 8)])
                  else pixels (h1 ! img) p)\<rparr>])"
      by (rule Suc.hyps(1) [OF k sc h1(1) s1])
    define G where "G = (\<lambda>p. if y \<le> snd p \<and> snd p < y + 8 \<and> c * 8 \<le> fst p \<and> fst p < per_row * 8 \<and>
                     R + fst p div 8 < length (sprites self)
                  then the (pal [sprites self ! (R + fst p div 8) ! (snd p - y) ! (fst p mod 8)])
                  else pixels (h ! img) p)"
    have eq: "(\<lambda>p. if y \<le> snd p \<and> snd p < y + 8 \<and> Suc c * 8 \<le> fst p \<and> fst p < per_row * 8 \<and>
                     R + fst p div 8 < length (sprites self)
                  then the (pal [sprites self ! (R + fst p div 8) ! (snd p - y) ! (fst p mod 8)])
                  else pixels (h1 ! img) p) = G"
    proof (rule ext)
      fix p :: "nat \<times> nat"
      have px: "pixels (h1 ! img) p = f1 p" unfolding h1(2) by simp
      show "(if y \<le> snd p \<and> snd p < y + 8 \<and> Suc c * 8 \<le> fst p \<and> fst p < per_row * 8 \<and>
                     R + fst p div 8 < length (sprites self)
                  then the (pal [sprites self ! (R + fst p div 8) ! (snd p - y) ! (fst p mod 8)])
                  else pixels (h1 ! img) p) = G p"
      proof (cases "c * 8 \<le> fst p \<and> fst p < c * 8 + 8")
        case cell: True
        then have cc: "fst p div 8 = c" "fst p - c * 8 = fst p mod 8"
          by (simp_all add: cell_coordinates)
        from cell lt have "fst p < per_row * 8" by simp
        with cell cc True show ?thesis
          by (simp add: px f1_def G_def t_def)
      next
        case False
        then show ?thesis by (auto simp: px f1_def G_def)
      qed
    qed
    have upd: "h1[img := (h1 ! img)\<lparr>pixels := G\<rparr>] = h[img := (h ! img)\<lparr>pixels := G\<rparr>]"
      unfolding h1(2) by (simp add: h1_def)
    show ?thesis
      unfolding cols draw_sheet_row.simps d prod.case sum.case ih eq upd
      unfolding G_def ..
  next
    case False
    then have "int (length (sprites self)) \<le> int (R + c)" by simp
    then have get: "py_getitem (sprites self) (int (R + c)) = Inl IndexError"
      by (intro py_getitem_out_of_range) simp
    have fits: "MaybeEnlargeImage h img 8 8 (c * 8) y = (img, h)"
      using fx Suc.prems(4) by (intro MaybeEnlargeImage_fits) simp_all
    have d: "DrawSprite self h (Some img) (Some [[int (R + c)]]) (Some pal) (c * 8) y =
               (Inl IndexError, h)"
      unfolding DrawSprite_single_bad [OF get] fits by simp
    have "(\<lambda>p. if y \<le> snd p \<and> snd p < y + 8 \<and> c * 8 \<le> fst p \<and> fst p < per_row * 8 \<and>
                     R + fst p div 8 < length (sprites self)
                  then the (pal [sprites self ! (R + fst p div 8) ! (snd p - y) ! (fst p mod 8)])
                  else pixels (h ! img) p) = pixels (h ! img)"
    proof (rule ext)
      fix p :: "nat \<times> nat"
      have "\<not> R + fst p div 8 < length (sprites self)" if "c * 8 \<le> fst p"
      proof -
        from that have "c \<le> fst p div 8" by simp
        with False show ?thesis by simp
      qed
      then show "(if y \<le> snd p \<and> snd p < y + 8 \<and> c * 8 \<le> fst p \<and> fst p < per_row * 8 \<and>
                     R + fst p div 8 < length (sprites self)
                  then the (pal [sprites self ! (R + fst p div 8) ! (snd p - y) ! (fst p mod 8)])
                  else pixels (h ! img) p) = pixels (h ! img) p"
        by auto
    qed
    then show ?thesis
      unfolding cols draw_sheet_row.simps d prod.case sum.case
      by simp
  qed
qed

lemma for_each_append:
  "for_each f (xs @ ys) s =
     (case for_each f xs s of (Inl e, s') \<Rightarrow> (Inl e, s') | (Inr u, s') \<Rightarrow> for_each f ys s')"
  by (induction xs arbitrary: s) (simp_all split: prod.splits sum.splits)

lemma draw_sheet_line_cells:
  assumes tiles: "\<forall>t\<in>set (sprites self). length t = 8 \<and>
             (\<forall>row\<in>set t. length row = 8 \<and> (\<forall>c\<in>set row. pal [c] \<noteq> None))"
    and "0 < per_row" and "img < length h"
    and "per_row * 8 \<le> fst (size_px (h ! img))"
    and "r * 8 + 8 \<le> snd (size_px (h ! img))"
  shows "draw_sheet_line self img pal per_row (r * per_row) h =
         (Inr (), h[img := (h ! img)\<lparr>pixels :=
            (\<lambda>p. if r * 8 \<le> snd p \<and> snd p < r * 8 + 8 \<and> fst p < per_row * 8 \<and>
                     r * per_row + fst p div 8 < length (sprites self)
                  then the (pal [sprites self ! (r * per_row + fst p div 8) ! (snd p - r * 8) ! (fst p mod 8)])
                  else pixels (h ! img) p),
            texts := texts (h ! img) @ [((0, r * 8), py_str (r * per_row), (0, 255, 0))]\<rparr>])"
proof -
  define G where "G = (\<lambda>p. if r * 8 \<le> snd p \<and> snd p < r * 8 + 8 \<and> fst p < per_row * 8 \<and>
                     r * per_row + fst p div 8 < length (sprites self)
                  then the (pal [sprites self ! (r * per_row + fst p div 8) ! (snd p - r * 8) ! (fst p mod 8)])
                  else pixels (h ! img) p)"
  have y: "r * per_row div per_row * 8 = r * 8" using assms(2) by simp
  have "(\<lambda>p. if r * 8 \<le> snd p \<and> snd p < r * 8 + 8 \<and> 0 * 8 \<le> fst p \<and> fst p < per_row * 8 \<and>
                     r * per_row + fst p div 8 < length (sprites self)
                  then the (pal [sprites self ! (r * per_row + fst p div 8) ! (snd p - r * 8) ! (fst p mod 8)])
                  else pixels (h ! img) p) = G"
    unfolding G_def by (rule ext) simp
  with draw_sheet_row_cells [OF tiles _ assms(3,4,5), of 0 "r * per_row"]
  have row: "draw_sheet_row self img pal (r * per_row) (r * 8) [0..<per_row] h =
               (Inr (), h[img := (h ! img)\<lparr>pixels := G\<rparr>])"
    by simp
  have "draw_sheet_line self img pal per_row (r * per_row) h =
         (Inr (), h[img := (h ! img)\<lparr>pixels := G,
            texts := texts (h ! img) @ [((0, r * 8), py_str (r * per_row), (0, 255, 0))]\<rparr>])"
    unfolding draw_sheet_line_def Let_def y py_range_step_one row prod.case sum.case
    using assms(3) by (simp add: draw_text_def)
  then show ?thesis unfolding G_def .
qed

lemma draw_sheet_lines:
  assumes tiles: "\<forall>t\<in>set (sprites self). length t = 8 \<and>
             (\<forall>row\<in>set t. length row = 8 \<and> (\<forall>c\<in>set row. pal [c] \<noteq> None))"
    and "0 < per_row" and "img < length h"
    and "per_row * 8 \<le> fst (size_px (h ! img))"
    and "n * 8 \<le> snd (size_px (h ! img))"
  shows "for_each (draw_sheet_line self img pal per_row) (map (\<lambda>k. k * per_row) [0..<n]) h =
         (Inr (), h[img := (h ! img)\<lparr>pixels :=
            (\<lambda>p. if snd p < n * 8 \<and> fst p < per_row * 8 \<and>
                     snd p div 8 * per_row + fst p div 8 < length (sprites self)
                  then the (pal [sprites self ! (snd p div 8 * per_row + fst p div 8) ! (snd p mod 8) ! (fst p mod 8)])
                  else pixels (h ! img) p),
            texts := texts (h ! img) @
                     map (\<lambda>k. ((0, k * 8), py_str (k * per_row), (0, 255, 0))) [0..<n]\<rparr>])"
  using assms(5)
proof (induction n)
  case 0
  then show ?case by simp
next
  case (Suc n)
  then have n8: "n * 8 \<le> snd (size_px (h ! img))" and n8': "n * 8 + 8 \<le> snd (size_px (h ! img))"
    by simp_all
  define F where "F = (\<lambda>m p. if snd p < m * 8 \<and> fst p < per_row * 8 \<and>
                     snd p div 8 * per_row + fst p div 8 < length (sprites self)
                  then the (pal [sprites self ! (snd p div 8 * per_row + fst p div 8) ! (snd p mod 8) ! (fst p mod 8)])
                  else pixels (h ! img) p)"
  define L where "L = (\<lambda>k. ((0 :: nat, k * 8), py_str (k * per_row), (0 :: nat, 255 :: nat, 0 :: nat)))"
  define h1 where "h1 = h[img := (h ! img)\<lparr>pixels := F n, texts := texts (h ! img) @ map L [0..<n]\<rparr>]"
  have ih: "for_each (draw_sheet_line self img pal per_row) (map (\<lambda>k. k * per_row) [0..<n]) h = (Inr (), h1)"
    unfolding h1_def F_def L_def by (rule Suc.IH [OF n8])
  have h1: "img < length h1"
    "h1 ! img = (h ! img)\<lparr>pixels := F n, texts := texts (h ! img) @ map L [0..<n]\<rparr>"
    using assms(3) by (simp_all add: h1_def)
  have s1: "per_row * 8 \<le> fst (size_px (h1 ! img))" "n * 8 + 8 \<le> snd (size_px (h1 ! img))"
    using assms(4) n8' by (simp_all add: h1(2))
  define G where "G = (\<lambda>p. if n * 8 \<le> snd p \<and> snd p < n * 8 + 8 \<and> fst p < per_row * 8 \<and>
                     n * per_row + fst p div 8 < length (sprites self)
                  then the (pal [sprites self ! (n * per_row + fst p div 8) ! (snd p - n * 8) ! (fst p mod 8)])
                  else pixels (h1 ! img) p)"
  have line: "draw_sheet_line self img pal per_row (n * per_row) h1 =
         (Inr (), h1[img := (h1 ! img)\<lparr>pixels := G,
            texts := texts (h1 ! img) @ [L n]\<rparr>])"
    unfolding G_def L_def by (rule draw_sheet_line_cells [OF tiles assms(2) h1(1) s1])
  have eq: "G = F (Suc n)"
  proof (rule ext)
    fix p :: "nat \<times> nat"
    have px: "pixels (h1 ! img) p = F n p" unfolding h1(2) by simp
    show "G p = F (Suc n) p"
    proof (cases "n * 8 \<le> snd p \<and> snd p < n * 8 + 8")
      case True
      then have cc: "snd p div 8 = n" "snd p - n * 8 = snd p mod 8"
        by (simp_all add: cell_coordinates)
      from True have "\<not> snd p < n * 8" "snd p < Suc n * 8" by simp_all
      with True cc show ?thesis
        by (simp add: G_def px F_def)
    next
      case False
      then have "snd p < Suc n * 8 \<longleftrightarrow> snd p < n * 8" by auto
      with False show ?thesis by (auto simp: G_def px F_def)
    qed
  qed
  have upd: "h1[img := (h1 ! img)\<lparr>pixels := F (Suc n), texts := texts (h1 ! img) @ [L n]\<rparr>] =
             h[img := (h ! img)\<lparr>pixels := F (Suc n), texts := texts (h ! img) @ map L [0..<Suc n]\<rparr>]"
    unfolding h1(2) by (simp add: h1_def)
  have "for_each (draw_sheet_line self img pal per_row) (map (\<lambda>k. k * per_row) [0..<Suc n]) h =
          (Inr (), h[img := (h ! img)\<lparr>pixels := F (Suc n), texts := texts (h ! img) @ map L [0..<Suc n]\<rparr>])"
    unfolding upt_Suc_append [OF le0] map_append for_each_append ih prod.case sum.case
    by (simp add: line eq upd)
  then show ?case unfolding F_def L_def .
qed

lemma rows_needed:
  fixes N per_row :: nat
  assumes "0 < per_row"
  shows "(N + per_row - 1) div per_row \<le> N div per_row + 1"
    and "q * per_row < N \<Longrightarrow> q < (N + per_row - 1) div per_row"
proof -
  have "(N + per_row - 1) div per_row \<le> (N + per_row) div per_row"
    by (rule div_le_mono) simp
  also have "\<dots> = N div per_row + 1" using assms by simp
  finally show "(N + per_row - 1) div per_row \<le> N div per_row + 1" .
next
  assume q: "q * per_row < N"
  show "q < (N + per_row - 1) div per_row"
  proof (rule ccontr)
    define A where "A = (N + per_row - 1) div per_row"
    assume "\<not> q < (N + per_row - 1) div per_row"
    then have "A \<le> q" unfolding A_def by simp
    then have "A * per_row \<le> q * per_row" by simp
    moreover have "N + per_row - 1 < per_row + per_row * A"
      unfolding A_def using assms by (rule dividend_less_times_div)
    then have "N + per_row - 1 < per_row + A * per_row" by (simp add: mult.commute)
    ultimately show False using q assms by linarith
  qed
qed

lemma sheet_result:
  assumes tiles: "\<forall>t\<in>set (sprites self). length t = 8 \<and>
             (\<forall>row\<in>set t. length row = 8 \<and>
                (\<forall>c\<in>set row. (case pal of None \<Rightarrow> DEFAULT_PALETTE | Some p \<Rightarrow> p) [c] \<noteq> None))"
    and "0 < per_row"
  shows "WriteAndNumberAllSprites self h file_name pal per_row =
     (Inr (file_name,
        \<lparr>mode = ''RGB'',
         size_px = (8 * per_row, (length (sprites self) div per_row + 1) * 8),
         pixels = (\<lambda>p. if fst p < 8 * per_row \<and>
                          snd p div 8 * per_row + fst p div 8 < length (sprites self)
                       then the ((case pal of None \<Rightarrow> DEFAULT_PALETTE | Some p \<Rightarrow> p)
                              [sprites self ! (snd p div 8 * per_row + fst p div 8) ! (snd p mod 8) ! (fst p mod 8)])
                       else white),
         texts = map (\<lambda>k. ((0, k * 8), py_str (k * per_row), (0, 255, 0)))
                   [0..<(length (sprites self) + per_row - 1) div per_row]\<rparr>),
      h @ [\<lparr>mode = ''RGB'',
         size_px = (8 * per_row, (length (sprites self) div per_row + 1) * 8),
         pixels = (\<lambda>p. if fst p < 8 * per_row \<and>
                          snd p div 8 * per_row + fst p div 8 < length (sprites self)
                       then the ((case pal of None \<Rightarrow> DEFAULT_PALETTE | Some p \<Rightarrow> p)
                              [sprites self ! (snd p div 8 * per_row + fst p div 8) ! (snd p mod 8) ! (fst p mod 8)])
                       else white),
         texts = map (\<lambda>k. ((0, k * 8), py_str (k * per_row), (0, 255, 0)))
                   [0..<(length (sprites self) + per_row - 1) div per_row]\<rparr>])"
proof -
  define P where "P = (case pal of None \<Rightarrow> DEFAULT_PALETTE | Some p \<Rightarrow> p)"
  define N where "N = length (sprites self)"
  define n where "n = (N + per_row - 1) div per_row"
  define I0 :: image where
    "I0 = \<lparr>mode = ''RGB'', size_px = (8 * per_row, (N div per_row + 1) * 8),
           pixels = (\<lambda>_. white), texts = []\<rparr>"
  define h1 where "h1 = h @ [I0]"
  define L where "L = (\<lambda>k. ((0 :: nat, k * 8), py_str (k * per_row), (0 :: nat, 255 :: nat, 0 :: nat)))"
  define F where "F = (\<lambda>p. if snd p < n * 8 \<and> fst p < per_row * 8 \<and>
                     snd p div 8 * per_row + fst p div 8 < N
                  then the (P [sprites self ! (snd p div 8 * per_row + fst p div 8) ! (snd p mod 8) ! (fst p mod 8)])
                  else pixels (h1 ! length h) p)"
  define G where "G = (\<lambda>p. if fst p < 8 * per_row \<and>
                          snd p div 8 * per_row + fst p div 8 < N
                       then the (P [sprites self ! (snd p div 8 * per_row + fst p div 8) ! (snd p mod 8) ! (fst p mod 8)])
                       else white)"
  have new: "Image_new h ''RGB'' (8 * per_row, (N div per_row + 1) * 8) white = (length h, h1)"
    by (simp add: Image_new_def h1_def I0_def)
  have i: "length h < length h1" and at: "h1 ! length h = I0" by (simp_all add: h1_def)
  have range: "py_range 0 N per_row = map (\<lambda>k. k * per_row) [0..<n]"
    by (simp add: py_range_def n_def)
  have sz: "per_row * 8 \<le> fst (size_px (h1 ! length h))" "n * 8 \<le> snd (size_px (h1 ! length h))"
    using rows_needed(1) [OF assms(2), of N] by (simp_all add: at I0_def n_def)
  have tiles': "\<forall>t\<in>set (sprites self). length t = 8 \<and>
             (\<forall>row\<in>set t. length row = 8 \<and> (\<forall>c\<in>set row. P [c] \<noteq> None))"
    using tiles unfolding P_def .
  have loop: "for_each (draw_sheet_line self (length h) P per_row) (map (\<lambda>k. k * per_row) [0..<n]) h1 =
         (Inr (), h1[length h := (h1 ! length h)\<lparr>pixels := F,
            texts := texts (h1 ! length h) @ map L [0..<n]\<rparr>])"
    unfolding F_def L_def N_def by (rule draw_sheet_lines [OF tiles' assms(2) i sz])
  have FG: "F = G"
  proof (rule ext)
    fix p :: "nat \<times> nat"
    have "snd p < n * 8" if "snd p div 8 * per_row + fst p div 8 < N"
    proof -
      from that have "snd p div 8 * per_row < N" by simp
      then have "snd p div 8 < n" unfolding n_def by (rule rows_needed(2) [OF assms(2)])
      then show ?thesis by simp
    qed
    then show "F p = G p"
      by (auto simp: F_def G_def at I0_def mult.commute)
  qed
  have final: "h1[length h := (h1 ! length h)\<lparr>pixels := F, texts := texts (h1 ! length h) @ map L [0..<n]\<rparr>] =
        h @ [\<lparr>mode = ''RGB'', size_px = (8 * per_row, (N div per_row + 1) * 8),
              pixels = G, texts = map L [0..<n]\<rparr>]"
    unfolding at FG by (simp add: h1_def I0_def)
  have "WriteAndNumberAllSprites self h file_name pal per_row =
     (Inr (file_name, \<lparr>mode = ''RGB'', size_px = (8 * per_row, (N div per_row + 1) * 8),
              pixels = G, texts = map L [0..<n]\<rparr>),
      h @ [\<lparr>mode = ''RGB'', size_px = (8 * per_row, (N div per_row + 1) * 8),
              pixels = G, texts = map L [0..<n]\<rparr>])"
    using assms(2)
    unfolding WriteAndNumberAllSprites_def Let_def N_def [symmetric] P_def [symmetric] new prod.case
      range loop sum.case final
    by simp
  then show ?thesis unfolding G_def L_def n_def N_def P_def .
qed

subsection \<open>Tile indices past the end of the table\<close>

text \<open>
  Claim C8. In a reader with \<open>N\<close> tiles (each 8 rows of 8 keys of the palette in use),
  \<open>self.sprites[i]\<close> raises IndexError for every \<open>i \<ge> N\<close>; \<open>DrawSprite\<close> on a layout that
  holds such an index ends with that IndexError; in the row loop of
  \<open>WriteAndNumberAllSprites\<close> a column whose tile index is \<open>N\<close> or more ends the row with no
  exception, the remaining columns being skipped, and the export as a whole returns
  normally for every \<open>per_row > 0\<close>.
\<close>

theorem unknown_tile_index_error:
  assumes "\<forall>t\<in>set (sprites self). length t = 8 \<and>
             (\<forall>row\<in>set t. length row = 8 \<and>
                (\<forall>c\<in>set row. (case pal of None \<Rightarrow> DEFAULT_PALETTE | Some p \<Rightarrow> p) [c] \<noteq> None))"
  shows "(\<forall>i. int (length (sprites self)) \<le> i \<longrightarrow> py_getitem (sprites self) i = Inl IndexError) \<and>
         (\<forall>rows img h x_val y_val.
            (img = None \<or> (\<exists>i. img = Some i \<and> i < length h)) \<and>
            (\<exists>row\<in>set rows. \<exists>i\<in>set row. int (length (sprites self)) \<le> i) \<longrightarrow>
            (\<exists>h'. DrawSprite self h img (Some rows) pal x_val y_val = (Inl IndexError, h'))) \<and>
         (\<forall>img h row_index y_offset col_index cols.
            length (sprites self) \<le> row_index + col_index \<longrightarrow>
            draw_sheet_row self img (case pal of None \<Rightarrow> DEFAULT_PALETTE | Some p \<Rightarrow> p)
              row_index y_offset (col_index # cols) h =
            (Inr (), snd (MaybeEnlargeImage h img 8 8 (col_index * 8) y_offset))) \<and>
         (\<forall>h file_name per_row. 0 < per_row \<longrightarrow>
            (\<exists>image h'. WriteAndNumberAllSprites self h file_name pal per_row =
                           (Inr (file_name, image), h')))"
proof (intro conjI allI impI)
  fix i :: int assume "int (length (sprites self)) \<le> i"
  then show "py_getitem (sprites self) i = Inl IndexError"
    by (intro py_getitem_out_of_range) simp
next
  fix rows img and h :: heap and x_val y_val
  assume a: "(img = None \<or> (\<exists>i. img = Some i \<and> i < length h)) \<and>
            (\<exists>row\<in>set rows. \<exists>i\<in>set row. int (length (sprites self)) \<le> i)"
  then have "\<exists>row\<in>set rows. \<exists>i\<in>set row.
                \<not> (- int (length (sprites self)) \<le> i \<and> i < int (length (sprites self)))"
    by (meson not_less)
  with assms show "\<exists>h'. DrawSprite self h img (Some rows) pal x_val y_val = (Inl IndexError, h')"
    using a by (intro DrawSprite_bad_index) blast+
next
  fix img and h :: heap and row_index y_offset col_index cols
  assume "length (sprites self) \<le> row_index + col_index"
  then have "int (length (sprites self)) \<le> int (row_index + col_index)" by simp
  then have get: "py_getitem (sprites self) (int (row_index + col_index)) = Inl IndexError"
    by (intro py_getitem_out_of_range) simp
  show "draw_sheet_row self img (case pal of None \<Rightarrow> DEFAULT_PALETTE | Some p \<Rightarrow> p)
              row_index y_offset (col_index # cols) h =
            (Inr (), snd (MaybeEnlargeImage h img 8 8 (col_index * 8) y_offset))"
    unfolding draw_sheet_row.simps DrawSprite_single_bad [OF get] by simp
next
  fix h :: heap and file_name and per_row :: nat
  assume "0 < per_row"
  with assms show "\<exists>image h'. WriteAndNumberAllSprites self h file_name pal per_row =
                           (Inr (file_name, image), h')"
    unfolding sheet_result [OF assms \<open>0 < per_row\<close>] by blast
qed

theorem unknown_tile_index_error_witness:
  "\<exists>self. init Map.empty ([0x4e, 0x45, 0x53, 0x1a, 0, 1, 0, 0, 0, 0, 0, 0, 0, 0, 0, 0] @ replicate 8176 (0::byte) @ replicate 8 255 @ replicate 8 0) None = Inr self \<and>
     length (sprites self) = 512 \<and>
     py_getitem (sprites self) 512 = Inl IndexError \<and>
     (\<exists>h'. DrawSprite self [] None (Some [[0, 512]]) None 0 0 = (Inl IndexError, h')) \<and>
     draw_sheet_row self 0 DEFAULT_PALETTE 510 408 [2, 3]
       [\<lparr>mode = ''RGB'', size_px = (80, 416), pixels = (\<lambda>_. white), texts = []\<rparr>] =
       (Inr (), [\<lparr>mode = ''RGB'', size_px = (80, 416), pixels = (\<lambda>_. white), texts = []\<rparr>]) \<and>
     (\<exists>image h'. WriteAndNumberAllSprites self [] ''all_sprites.bmp'' None 10 =
                    (Inr (''all_sprites.bmp'', image), h'))"
proof -
  from sample_rom [of Map.empty] obtain self where
    self: "init Map.empty ([0x4e, 0x45, 0x53, 0x1a, 0, 1, 0, 0, 0, 0, 0, 0, 0, 0, 0, 0] @ replicate 8176 (0::byte) @ replicate 8 255 @ replicate 8 0) None = Inr self"
    and sp: "sprites self = replicate 511 (replicate 8 ''00000000'') @ [replicate 8 ''22222222'']"
    by blast
  have n: "length (sprites self) = 512" unfolding sp by simp
  have tiles: "\<forall>t\<in>set (sprites self). length t = 8 \<and>
           (\<forall>row\<in>set t. length row = 8 \<and>
              (\<forall>c\<in>set row. (case None of None \<Rightarrow> DEFAULT_PALETTE | Some p \<Rightarrow> p) [c] \<noteq> None))"
    using self by (rule init_sprites_drawable)
  note t = unknown_tile_index_error [OF tiles]
  define I :: image where "I = \<lparr>mode = ''RGB'', size_px = (80, 416), pixels = (\<lambda>_. white), texts = []\<rparr>"
  have a: "py_getitem (sprites self) 512 = Inl IndexError"
    using t [THEN conjunct1, rule_format, of 512] by (simp add: n)
  have b: "\<exists>h'. DrawSprite self [] None (Some [[0, 512]]) None 0 0 = (Inl IndexError, h')"
    by (rule t [THEN conjunct2, THEN conjunct1, rule_format]) (simp add: n)
  have "draw_sheet_row self 0 (case None of None \<Rightarrow> DEFAULT_PALETTE | Some p \<Rightarrow> p) 510 408 (2 # [3]) [I] =
          (Inr (), snd (MaybeEnlargeImage [I] 0 8 8 (2 * 8) 408))"
    by (rule t [THEN conjunct2, THEN conjunct2, THEN conjunct1, rule_format]) (simp add: n)
  moreover have "MaybeEnlargeImage [I] 0 8 8 (2 * 8) 408 = (0, [I])"
    by (rule MaybeEnlargeImage_fits) (simp_all add: I_def)
  ultimately have c: "draw_sheet_row self 0 DEFAULT_PALETTE 510 408 [2, 3] [I] = (Inr (), [I])"
    by simp
  have d: "\<exists>image h'. WriteAndNumberAllSprites self [] ''all_sprites.bmp'' None 10 =
                    (Inr (''all_sprites.bmp'', image), h')"
    by (rule t [THEN conjunct2, THEN conjunct2, THEN conjunct2, rule_format]) simp
  from self n a b c [unfolded I_def] d show ?thesis by blast
qed

subsection \<open>The canvas of the sprite sheet\<close>




end
